theory Spec2Isabelle
  imports Complex_Main
begin

section \<open>Data model of \<open>src/worker.py\<close>\<close>

text \<open>
  The module constants (lines 17--19 of the source).
\<close>

definition MAX_PIPELINE_FAILURES :: int where
  "MAX_PIPELINE_FAILURES = 3"

definition MAX_GRPC_MESSAGE_BYTE_COUNT :: nat where
  "MAX_GRPC_MESSAGE_BYTE_COUNT = 4194304"

text \<open>
  Python exceptions that are instances of \<open>Exception\<close> (the class caught by the
  handler of \<open>_pipeline_loop\<close>), carried with their message.
\<close>

datatype exn = Exception string

text \<open>
  A statement that runs in a state either completes or raises; in both cases the
  mutations done so far stay.
\<close>

datatype 's outcome = Normal 's | Raised exn 's

fun outcome_state :: "'s outcome \<Rightarrow> 's" where
  "outcome_state (Normal s) = s"
| "outcome_state (Raised e s) = s"

text \<open>
  The loops of the worker thread run as long as the environment keeps them running.
  They are given a finite script of what the environment does; \<open>Done\<close> is the loop left
  (normally or by an exception), \<open>Pending\<close> is the loop still running, in the state
  given, when the script is used up.
\<close>

datatype 's progress = Done "'s outcome" | Pending 's

fun progress_state :: "'s progress \<Rightarrow> 's" where
  "progress_state (Done out) = outcome_state out"
| "progress_state (Pending s) = s"

text \<open>
  Arrays. A depth frame is a two-dimensional array, a list of rows. A colour frame and
  a point array are three-dimensional (rows, columns, channels); \<open>itemsize\<close> is the
  byte size of one element of the array's dtype, which numpy's \<open>nbytes\<close> multiplies
  by the number of elements.
\<close>

type_synonym 'a array2 = "'a list list"

record 'a ndarray =
  itemsize :: nat
  items :: "'a list list list"

definition shape2 :: "'a array2 \<Rightarrow> int \<times> int" where
  "shape2 a = (int (length a), (case a of [] \<Rightarrow> 0 | r # _ \<Rightarrow> int (length r)))"

definition count_items :: "'a list list list \<Rightarrow> nat" where
  "count_items rs = sum_list (map (\<lambda>r. sum_list (map length r)) rs)"

definition nbytes :: "'a ndarray \<Rightarrow> nat" where
  "nbytes a = count_items (items a) * itemsize a"

text \<open>The extended slice \<open>xs[::2]\<close>: the elements at positions 0, 2, 4, ...\<close>

fun every_other :: "'b list \<Rightarrow> 'b list" where
  "every_other [] = []"
| "every_other [x] = [x]"
| "every_other (x # y # xs) = x # every_other xs"

text \<open>\<open>arr[::2, ::2, :]\<close> (line 268).\<close>

definition subsample :: "'a ndarray \<Rightarrow> 'a ndarray" where
  "subsample a = a\<lparr>items := map every_other (every_other (items a))\<rparr>"

text \<open>
  A rectangular array of \<open>h\<close> rows, \<open>w\<close> columns and \<open>c\<close> channels, which is what
  every numpy array of shape \<open>(h, w, c)\<close> is.
\<close>

definition has_shape3 :: "'a ndarray \<Rightarrow> nat \<Rightarrow> nat \<Rightarrow> nat \<Rightarrow> bool" where
  "has_shape3 a h w c =
     (length (items a) = h \<and> list_all (\<lambda>r. length r = w \<and> list_all (\<lambda>p. length p = c) r) (items a))"

text \<open>\<open>CapturedData\<close> (lines 50--54): the array and the \<open>time.time()\<close> it was captured at.\<close>

record 'arr captured_data =
  np_array :: 'arr
  captured_at :: real

text \<open>
  The messages the code hands to its logger that the development refers to; the logger
  is the list of messages written so far, oldest first.
\<close>

datatype log_msg =
    InitializingPipeline
  | CreatingColorNode
  | CreatingStereoNode
  | CreatingPointCloudNode
  | SettingCurrentImage
  | ShapeMismatchResizing
  | SettingCurrentDepthMap
  | SettingCurrentPcd nat
  | SubsamplingPcd nat
  | ReachedMaxFailures exn
  | FailureCount int exn
  | ExitingPipelineLoop
  | StoppedWorkerThread
  | StoppingWorker
  | StoppingManager
  | CheckingReconfigure
  | ReconfiguringWorker

text \<open>
  \<open>WorkerManager\<close> (lines 22--48). The \<open>reconfigure\<close> callback is supplied by the
  owner of the worker; \<open>reconfigure_calls\<close> counts its invocations.
\<close>

record manager =
  needs_reconfigure :: bool
  running :: bool
  reconfigure_calls :: nat

text \<open>
  \<open>Worker\<close> (lines 56--90). \<open>frame_rate\<close> is only passed on to the device SDK and
  is left out.
\<close>

record 'a worker =
  height :: int
  width :: int
  user_wants_color :: bool
  user_wants_depth :: bool
  color_image :: "'a ndarray captured_data option"
  depth_map :: "'a array2 captured_data option"
  pcd :: "'a ndarray captured_data option"
  get_pcd_was_invoked :: bool
  manager :: manager
  logger :: "log_msg list"

definition write_log :: "log_msg \<Rightarrow> 'a worker \<Rightarrow> 'a worker" where
  "write_log m w = w\<lparr>logger := logger w @ [m]\<rparr>"

text \<open>\<open>Worker.__init__\<close> (lines 65--90).\<close>

definition init_worker :: "int \<Rightarrow> int \<Rightarrow> bool \<Rightarrow> bool \<Rightarrow> 'a worker" where
  "init_worker h w wants_color wants_depth =
     \<lparr>height = h, width = w, user_wants_color = wants_color, user_wants_depth = wants_depth,
      color_image = None, depth_map = None, pcd = None, get_pcd_was_invoked = False,
      manager = \<lparr>needs_reconfigure = False, running = True, reconfigure_calls = 0\<rparr>,
      logger = []\<rparr>"

section \<open>The supervisor and the demand flag\<close>

text \<open>\<open>WorkerManager.stop\<close> (lines 46--48) and \<open>Worker.stop\<close> (lines 152--155).\<close>

definition manager_stop :: "'a worker \<Rightarrow> 'a worker" where
  "manager_stop w = (write_log StoppingManager w)\<lparr>manager := (manager w)\<lparr>running := False\<rparr>\<rparr>"

definition stop :: "'a worker \<Rightarrow> 'a worker" where
  "stop w = manager_stop (write_log StoppingWorker w)"

text \<open>
  One iteration of the loop of \<open>WorkerManager.run\<close> (lines 37--44): the loop test, the
  check of the flag, the callback. Once \<open>running\<close> is false the loop has been left and
  a further iteration does nothing.
\<close>

definition manager_iteration :: "'a worker \<Rightarrow> 'a worker" where
  "manager_iteration w =
     (if running (manager w) then
        (let w1 = write_log CheckingReconfigure w in
         if needs_reconfigure (manager w1) then
           (let w2 = write_log ReconfiguringWorker w1;
                w3 = w2\<lparr>manager := (manager w2)\<lparr>reconfigure_calls := reconfigure_calls (manager w2) + 1\<rparr>\<rparr>
            in w3\<lparr>manager := (manager w3)\<lparr>running := False\<rparr>\<rparr>)
         else w1)
      else w)"

text \<open>The first statement of \<open>get_pcd\<close> (lines 105--106).\<close>

definition get_pcd_mark :: "'a worker \<Rightarrow> 'a worker" where
  "get_pcd_mark w = (if \<not> get_pcd_was_invoked w then w\<lparr>get_pcd_was_invoked := True\<rparr> else w)"

text \<open>
  What the other threads do to the shared state between two steps of the worker thread:
  the owner calls \<open>stop\<close>, a consumer enters \<open>get_pcd\<close>, the manager thread runs one
  iteration of its loop.
\<close>

datatype conc_act = StopCall | GetPcdCall | ManagerIteration

fun other_thread :: "conc_act \<Rightarrow> 'a worker \<Rightarrow> 'a worker" where
  "other_thread StopCall w = stop w"
| "other_thread GetPcdCall w = get_pcd_mark w"
| "other_thread ManagerIteration w = manager_iteration w"

fun other_threads :: "conc_act list \<Rightarrow> 'a worker \<Rightarrow> 'a worker" where
  "other_threads [] w = w"
| "other_threads (a # as) w = other_threads as (other_thread a w)"

section \<open>The publish steps\<close>

text \<open>\<open>_set_color_image\<close> (lines 251--253); \<open>t\<close> is the value of \<open>time.time()\<close>.\<close>

definition set_color_image :: "'a ndarray \<Rightarrow> real \<Rightarrow> 'a worker \<Rightarrow> 'a worker" where
  "set_color_image arr t w =
     (write_log SettingCurrentImage w)\<lparr>color_image := Some \<lparr>np_array = arr, captured_at = t\<rparr>\<rparr>"

text \<open>
  \<open>_set_depth_map\<close> (lines 255--261). \<open>cv2.resize\<close> belongs to an external library:
  it is the parameter \<open>resize\<close>, called with the array and the pair \<open>(width, height)\<close>
  as the source does, and it may raise.
\<close>

type_synonym 'a resize = "'a array2 \<Rightarrow> int \<times> int \<Rightarrow> exn + 'a array2"

definition set_depth_map :: "'a resize \<Rightarrow> 'a array2 \<Rightarrow> real \<Rightarrow> 'a worker \<Rightarrow> 'a worker outcome" where
  "set_depth_map resize frame t w =
     (let arr = frame in
      if shape2 arr \<noteq> (height w, width w) then
        (let w1 = write_log ShapeMismatchResizing w in
         case resize arr (width w, height w) of
           Inl e \<Rightarrow> Raised e w1
         | Inr arr' \<Rightarrow>
             Normal ((write_log SettingCurrentDepthMap w1)
                       \<lparr>depth_map := Some \<lparr>np_array = arr', captured_at = t\<rparr>\<rparr>))
      else
        Normal ((write_log SettingCurrentDepthMap w)
                  \<lparr>depth_map := Some \<lparr>np_array = arr, captured_at = t\<rparr>\<rparr>))"

text \<open>\<open>_set_pcd\<close> (lines 263--269).\<close>

definition set_pcd :: "'a ndarray \<Rightarrow> real \<Rightarrow> 'a worker \<Rightarrow> 'a worker" where
  "set_pcd points t w =
     (let arr = points; num_bytes = nbytes points;
          w1 = write_log (SettingCurrentPcd num_bytes) w
      in if num_bytes > MAX_GRPC_MESSAGE_BYTE_COUNT then
           (write_log (SubsamplingPcd num_bytes) w1)
             \<lparr>pcd := Some \<lparr>np_array = subsample arr, captured_at = t\<rparr>\<rparr>
         else w1\<lparr>pcd := Some \<lparr>np_array = arr, captured_at = t\<rparr>\<rparr>)"

section \<open>Building the pipeline\<close>

text \<open>
  The \<open>OakCamera\<close> as far as the worker shapes it: which components were created.
  The stereo component carries the callback \<open>_set_depth_map\<close>, the point-cloud
  component the callback \<open>_set_pcd\<close>.
\<close>

record oak =
  color_component :: bool
  stereo_component :: bool
  pc_component :: bool

text \<open>
  \<open>_configure_color\<close>, \<open>_configure_stereo\<close>, \<open>_configure_pc\<close> (lines 157--221):
  each returns whether it created its component (the source returns the component or
  \<open>None\<close>).
\<close>

definition configure_color :: "'a worker \<Rightarrow> bool \<times> 'a worker" where
  "configure_color w =
     (if user_wants_color w then (True, write_log CreatingColorNode w) else (False, w))"

definition configure_stereo :: "bool \<Rightarrow> 'a worker \<Rightarrow> bool \<times> 'a worker" where
  "configure_stereo color w =
     (if user_wants_depth w then (True, write_log CreatingStereoNode w) else (False, w))"

definition configure_pc :: "bool \<Rightarrow> bool \<Rightarrow> 'a worker \<Rightarrow> bool \<times> 'a worker" where
  "configure_pc stereo color w =
     (if user_wants_depth w \<and> get_pcd_was_invoked w
      then (True, write_log CreatingPointCloudNode w) else (False, w))"

section \<open>The capture cycle\<close>

text \<open>
  The packets that \<open>oak.poll()\<close> hands to the registered callbacks, each with the
  value \<open>time.time()\<close> has when its callback runs.
\<close>

datatype 'a packet = DisparityDepthPacket "'a array2" | PointcloudPacket "'a ndarray"

text \<open>
  What the device and the other threads do during one round of the loop of lines
  126--130: the steps of the other threads, the outcome of reading and converting the
  preview frame (lines 233--237: an exception, no frame, or the RGB frame with the
  time of its publication), and the events of \<open>oak.poll()\<close> in order (a packet for a
  callback, or an exception raised by the device).
\<close>

record 'a round =
  acts :: "conc_act list"
  color_out :: "exn + ('a ndarray \<times> real) option"
  poll_out :: "(exn + 'a packet \<times> real) list"

text \<open>\<open>_handle_color_output\<close> (lines 223--238).\<close>

definition handle_color_output ::
  "(exn + ('a ndarray \<times> real) option) \<Rightarrow> 'a worker \<Rightarrow> 'a worker outcome" where
  "handle_color_output out w =
     (if user_wants_color w then
        (case out of
           Inl e \<Rightarrow> Raised e w
         | Inr None \<Rightarrow> Normal w
         | Inr (Some (rgb_frame, t)) \<Rightarrow> Normal (set_color_image rgb_frame t w))
      else Normal w)"

text \<open>
  \<open>oak.poll()\<close>: every packet goes to the callback registered for its component, a
  packet of a component the pipeline does not have reaches no callback, and the first
  exception ends the poll.
\<close>

fun poll :: "'a resize \<Rightarrow> oak \<Rightarrow> (exn + 'a packet \<times> real) list \<Rightarrow> 'a worker \<Rightarrow> 'a worker outcome" where
  "poll resize oak [] w = Normal w"
| "poll resize oak (Inl e # evs) w = Raised e w"
| "poll resize oak (Inr (DisparityDepthPacket frame, t) # evs) w =
     (if stereo_component oak then
        (case set_depth_map resize frame t w of
           Raised e w1 \<Rightarrow> Raised e w1
         | Normal w1 \<Rightarrow> poll resize oak evs w1)
      else poll resize oak evs w)"
| "poll resize oak (Inr (PointcloudPacket points, t) # evs) w =
     (if pc_component oak then poll resize oak evs (set_pcd points t w)
      else poll resize oak evs w)"

text \<open>\<open>_handle_depth_and_pcd_output\<close> (lines 240--249).\<close>

definition handle_depth_and_pcd_output ::
  "'a resize \<Rightarrow> oak \<Rightarrow> (exn + 'a packet \<times> real) list \<Rightarrow> 'a worker \<Rightarrow> 'a worker outcome" where
  "handle_depth_and_pcd_output resize oak evs w =
     (if user_wants_depth w then poll resize oak evs w else Normal w)"

text \<open>The body of the loop (lines 129--130), after the steps of the other threads.\<close>

definition round_body :: "'a resize \<Rightarrow> oak \<Rightarrow> 'a round \<Rightarrow> 'a worker \<Rightarrow> 'a worker outcome" where
  "round_body resize oak r w =
     (case handle_color_output (color_out r) (other_threads (acts r) w) of
        Raised e w1 \<Rightarrow> Raised e w1
      | Normal w1 \<Rightarrow> handle_depth_and_pcd_output resize oak (poll_out r) w1)"

text \<open>The loop of lines 126--130, over the rounds the environment provides.\<close>

fun capture_loop ::
  "'a resize \<Rightarrow> oak \<Rightarrow> bool \<Rightarrow> 'a round list \<Rightarrow> 'a worker \<Rightarrow> 'a worker progress" where
  "capture_loop resize oak previous [] w =
     (if \<not> running (manager w) then Done (Normal w)
      else if previous \<noteq> get_pcd_was_invoked w then Done (Normal w)
      else Pending w)"
| "capture_loop resize oak previous (r # rs) w =
     (if \<not> running (manager w) then Done (Normal w)
      else if previous \<noteq> get_pcd_was_invoked w then Done (Normal w)
      else
        (case round_body resize oak r w of
           Raised e w1 \<Rightarrow> Done (Raised e w1)
         | Normal w1 \<Rightarrow> capture_loop resize oak previous rs w1))"

section \<open>The pipeline loop and the worker thread\<close>

text \<open>
  One call of \<open>_pipeline_loop\<close> as the environment sees it: the steps of the other
  threads while the pipeline is built, whether \<open>OakCamera()\<close> (line 120) or
  \<open>oak.start()\<close> (line 125) raises, and the rounds of the capture cycle.
\<close>

record 'a lifetime =
  build_acts :: "conc_act list"
  open_raises :: "exn option"
  start_raises :: "exn option"
  rounds :: "'a round list"

text \<open>
  Lines 121--124: the three components and the snapshot of the demand flag. The result
  is the pipeline, the snapshot and the state.
\<close>

definition build_pipeline :: "'a worker \<Rightarrow> oak \<times> bool \<times> 'a worker" where
  "build_pipeline w0 =
     (let (color, w1) = configure_color w0;
          (stereo, w2) = configure_stereo color w1;
          (pc, w3) = configure_pc stereo color w2;
          previous_get_pcd_was_invoked = get_pcd_was_invoked w3
      in (\<lparr>color_component = color, stereo_component = stereo, pc_component = pc\<rparr>,
          previous_get_pcd_was_invoked, w3))"

text \<open>The body of the \<open>try\<close> statement (lines 119--130).\<close>

definition pipeline_body :: "'a resize \<Rightarrow> 'a lifetime \<Rightarrow> 'a worker \<Rightarrow> 'a worker progress" where
  "pipeline_body resize l w =
     (let w0 = write_log InitializingPipeline (other_threads (build_acts l) w) in
      case open_raises l of
        Some e \<Rightarrow> Done (Raised e w0)
      | None \<Rightarrow>
          (let (oak, previous_get_pcd_was_invoked, w3) = build_pipeline w0
           in case start_raises l of
                Some e \<Rightarrow> Done (Raised e w3)
              | None \<Rightarrow> capture_loop resize oak previous_get_pcd_was_invoked (rounds l) w3))"

text \<open>
  \<open>_pipeline_loop\<close> (lines 112--139): the local counter \<open>failures\<close>, the body, the
  handler of \<open>Exception\<close> and the \<open>finally\<close> clause.
\<close>

definition pipeline_loop :: "'a resize \<Rightarrow> 'a lifetime \<Rightarrow> 'a worker \<Rightarrow> 'a worker progress" where
  "pipeline_loop resize l w =
     (let failures = (0::int) in
      case pipeline_body resize l w of
        Pending w1 \<Rightarrow> Pending w1
      | Done (Normal w1) \<Rightarrow> Done (Normal (write_log ExitingPipelineLoop w1))
      | Done (Raised e w1) \<Rightarrow>
          (let failures = failures + 1 in
           if failures > MAX_PIPELINE_FAILURES then
             Done (Normal (write_log ExitingPipelineLoop
                     (write_log (ReachedMaxFailures e)
                        (w1\<lparr>manager := (manager w1)\<lparr>needs_reconfigure := True\<rparr>\<rparr>))))
           else
             Done (Normal (write_log ExitingPipelineLoop
                     (write_log (FailureCount failures e) w1)))))"

text \<open>
  \<open>Worker.run\<close> (lines 141--150), over the pipeline lifetimes the environment
  provides.
\<close>

fun run :: "'a resize \<Rightarrow> 'a lifetime list \<Rightarrow> 'a worker \<Rightarrow> 'a worker progress" where
  "run resize [] w =
     (if running (manager w) then Pending w else Done (Normal (write_log StoppedWorkerThread w)))"
| "run resize (l # ls) w =
     (if running (manager w) then
        (case pipeline_loop resize l w of
           Pending w1 \<Rightarrow> Pending w1
         | Done (Raised e w1) \<Rightarrow> Done (Raised e (write_log StoppedWorkerThread w1))
         | Done (Normal w1) \<Rightarrow> run resize ls w1)
      else Done (Normal (write_log StoppedWorkerThread w)))"

section \<open>The accessors\<close>

text \<open>
  \<open>get_color_image\<close>, \<open>get_depth_map\<close> and the loop of \<open>get_pcd\<close> (lines 92--110).
  The argument is the shared state as the call finds it at each test of its loop: at
  the call, then after each \<open>asyncio.sleep(1)\<close>. The result is \<open>None\<close> while the
  call is still waiting after the last state given, and \<open>Some\<close> of the returned slot
  (a frame, or Python's \<open>None\<close>) when it has returned.
\<close>

fun get_color_image :: "'a worker list \<Rightarrow> 'a ndarray captured_data option option" where
  "get_color_image [] = None"
| "get_color_image (w # ws) =
     (if color_image w = None \<and> running (manager w) then get_color_image ws
      else Some (color_image w))"

fun get_depth_map :: "'a worker list \<Rightarrow> 'a array2 captured_data option option" where
  "get_depth_map [] = None"
| "get_depth_map (w # ws) =
     (if depth_map w = None \<and> running (manager w) then get_depth_map ws
      else Some (depth_map w))"

fun get_pcd_wait :: "'a worker list \<Rightarrow> 'a ndarray captured_data option option" where
  "get_pcd_wait [] = None"
| "get_pcd_wait (w # ws) =
     (if pcd w = None \<and> running (manager w) then get_pcd_wait ws
      else Some (pcd w))"

section \<open>Sequences of publish steps, and what the log records\<close>

text \<open>
  A publish operation on one of the three slots, with its arguments, and a sequence of
  them run in order on the worker. A publish step that raises ends its pipeline
  lifetime and leaves the state as it is; the next steps belong to the next lifetime.
\<close>

datatype 'a publish_op =
    PublishColor "'a ndarray" real
  | PublishDepth "'a array2" real
  | PublishPcd "'a ndarray" real

fun publish :: "'a resize \<Rightarrow> 'a publish_op \<Rightarrow> 'a worker \<Rightarrow> 'a worker outcome" where
  "publish resize (PublishColor arr t) w = Normal (set_color_image arr t w)"
| "publish resize (PublishDepth frame t) w = set_depth_map resize frame t w"
| "publish resize (PublishPcd points t) w = Normal (set_pcd points t w)"

fun publish_all :: "'a resize \<Rightarrow> 'a publish_op list \<Rightarrow> 'a worker \<Rightarrow> 'a worker" where
  "publish_all resize [] w = w"
| "publish_all resize (p # ps) w = publish_all resize ps (outcome_state (publish resize p w))"

text \<open>
  The most recently completed publish on a slot, following the wording of the
  specification: the last publish of the sequence that is on that slot and completes.
\<close>

fun is_color :: "'a publish_op \<Rightarrow> bool" where
  "is_color (PublishColor arr t) = True"
| "is_color p = False"

fun is_pcd :: "'a publish_op \<Rightarrow> bool" where
  "is_pcd (PublishPcd points t) = True"
| "is_pcd p = False"

fun completes_depth :: "'a resize \<Rightarrow> 'a worker \<Rightarrow> 'a publish_op \<Rightarrow> bool" where
  "completes_depth resize w (PublishDepth frame t) =
     (case set_depth_map resize frame t w of Normal w1 \<Rightarrow> True | Raised e w1 \<Rightarrow> False)"
| "completes_depth resize w p = False"

definition most_recent :: "('a publish_op \<Rightarrow> bool) \<Rightarrow> 'a publish_op list \<Rightarrow> 'a publish_op option" where
  "most_recent on_slot ps = find on_slot (rev ps)"

text \<open>The failure counts the handler of \<open>_pipeline_loop\<close> has logged (line 137), in order.\<close>

fun failure_counts :: "log_msg list \<Rightarrow> int list" where
  "failure_counts [] = []"
| "failure_counts (FailureCount n e # ms) = n # failure_counts ms"
| "failure_counts (m # ms) = failure_counts ms"

text \<open>The depth slot is empty or holds an array of the configured shape.\<close>

definition depth_ok :: "'a worker \<Rightarrow> bool" where
  "depth_ok w =
     (case depth_map w of
        None \<Rightarrow> True
      | Some cd \<Rightarrow> shape2 (np_array cd) = (height w, width w))"

text \<open>
  A resize by nearest neighbour, in the place of \<open>cv2.resize\<close> where an example is
  evaluated: it raises on an empty target or source and otherwise returns \<open>dh\<close> rows
  of \<open>dw\<close> items for the target size \<open>(dw, dh)\<close>.
\<close>

definition nearest_resize :: "'a resize" where
  "nearest_resize a dsize =
     (case dsize of (dw, dh) \<Rightarrow>
        if dw \<le> 0 \<or> dh \<le> 0 \<or> a = [] \<or> hd a = [] then Inl (Exception ''cv2.error'')
        else Inr (map (\<lambda>i. map (\<lambda>j. a ! (i * length a div nat dh) ! (j * length (hd a) div nat dw))
                               [0..<nat dw])
                    [0..<nat dh]))"

text \<open>
  Two states that differ at most in the three slots and in the log: the publish steps
  write nothing else.
\<close>

definition same_control :: "'a worker \<Rightarrow> 'a worker \<Rightarrow> bool" where
  "same_control w w' =
     (height w' = height w \<and> width w' = width w
      \<and> user_wants_color w' = user_wants_color w \<and> user_wants_depth w' = user_wants_depth w
      \<and> get_pcd_was_invoked w' = get_pcd_was_invoked w \<and> manager w' = manager w)"

text \<open>
  A script of transient errors: the device link fails in the first poll of a pipeline
  lifetime, while the manager thread runs an iteration of its loop.
\<close>

definition link_error :: exn where
  "link_error = Exception ''X_LINK_ERROR''"

definition failing_round :: "'a round" where
  "failing_round = \<lparr>acts = [ManagerIteration], color_out = Inr None, poll_out = [Inl link_error]\<rparr>"

definition failing_lifetime :: "'a lifetime" where
  "failing_lifetime =
     \<lparr>build_acts = [], open_raises = None, start_raises = None, rounds = [failing_round]\<rparr>"

text \<open>
  A script of a change of demand: a consumer enters \<open>get_pcd\<close> during the first round
  of a pipeline lifetime; in the rounds after it the device delivers a point packet.
\<close>

definition flip_round :: "nat round" where
  "flip_round = \<lparr>acts = [GetPcdCall], color_out = Inr None, poll_out = []\<rparr>"

definition points_round :: "nat round" where
  "points_round =
     \<lparr>acts = [], color_out = Inr None,
      poll_out = [Inr (PointcloudPacket \<lparr>itemsize = 4, items = [[[1, 2, 3]]]\<rparr>, 20)]\<rparr>"

definition color_round :: "nat round" where
  "color_round =
     \<lparr>acts = [], color_out = Inr (Some (\<lparr>itemsize = 1, items = [[[4, 5, 6]]]\<rparr>, 30)),
      poll_out = []\<rparr>"

definition depth_round :: "nat round" where
  "depth_round =
     \<lparr>acts = [], color_out = Inr None, poll_out = [Inr (DisparityDepthPacket [[7, 8]], 31)]\<rparr>"

definition flip_lifetime :: "nat lifetime" where
  "flip_lifetime =
     \<lparr>build_acts = [], open_raises = None, start_raises = None,
      rounds = [flip_round, points_round]\<rparr>"

text \<open>
  The state of a worker of height 1 and width 2, colour and depth enabled, at the end of
  the round \<open>flip_round\<close> of its first pipeline lifetime.
\<close>

definition flip_state :: "nat worker" where
  "flip_state =
     get_pcd_mark (write_log CreatingStereoNode (write_log CreatingColorNode
       (write_log InitializingPipeline (init_worker 1 2 True True))))"

definition points_lifetime :: "nat lifetime" where
  "points_lifetime =
     \<lparr>build_acts = [], open_raises = None, start_raises = None, rounds = [points_round]\<rparr>"

text \<open>
  What the next call of \<open>_pipeline_loop\<close> builds after the capture cycle has been
  left in state \<open>w\<close>, the other threads taking the steps \<open>as\<close> in between: the
  \<open>finally\<close> clause of the call that ends, then lines 119--124 of the new call.
\<close>

definition rebuilt :: "conc_act list \<Rightarrow> 'a worker \<Rightarrow> oak \<times> bool \<times> 'a worker" where
  "rebuilt as w =
     build_pipeline (write_log InitializingPipeline
       (other_threads as (write_log ExitingPipelineLoop w)))"

text \<open>
  Two states that agree on everything but the point-cloud slot and the log, and whether
  a statement completed.
\<close>

definition same_frames :: "'a worker \<Rightarrow> 'a worker \<Rightarrow> bool" where
  "same_frames a b =
     (height b = height a \<and> width b = width a
      \<and> user_wants_color b = user_wants_color a \<and> user_wants_depth b = user_wants_depth a
      \<and> color_image b = color_image a \<and> depth_map b = depth_map a
      \<and> get_pcd_was_invoked b = get_pcd_was_invoked a \<and> manager b = manager a)"

fun completed :: "'s outcome \<Rightarrow> bool" where
  "completed (Normal s) = True"
| "completed (Raised e s) = False"

section \<open>Properties\<close>

subsection \<open>Slices and array sizes\<close>

lemma length_every_other: "length (every_other xs) = (length xs + 1) div 2"
  by (induction xs rule: every_other.induct) simp_all

lemma nth_every_other: "i < (length xs + 1) div 2 \<Longrightarrow> every_other xs ! i = xs ! (2 * i)"
proof (induction xs arbitrary: i rule: every_other.induct)
  case 1
  then show ?case by simp
next
  case (2 x)
  then show ?case by simp
next
  case (3 x y xs)
  show ?case
  proof (cases i)
    case 0
    then show ?thesis by simp
  next
    case (Suc j)
    with 3 show ?thesis by simp
  qed
qed

lemma set_every_other: "set (every_other xs) \<subseteq> set xs"
  by (induction xs rule: every_other.induct) auto

lemma every_other_replicate: "every_other (replicate n x) = replicate ((n + 1) div 2) x"
  by (auto simp add: list_eq_iff_nth_eq length_every_other nth_every_other)

lemma sum_list_map_const: "(\<forall>x \<in> set xs. f x = (k::nat)) \<Longrightarrow> sum_list (map f xs) = length xs * k"
  by (induction xs) simp_all

lemma count_items_rect:
  assumes "has_shape3 a h w c"
  shows "count_items (items a) = h * w * c"
proof -
  have "\<forall>r \<in> set (items a). sum_list (map length r) = w * c"
    using assms
    by (auto simp add: has_shape3_def list_all_iff intro!: sum_list_map_const[where k=c, simplified])
  then show ?thesis using assms
    by (simp add: count_items_def has_shape3_def sum_list_map_const[where k="w*c"])
qed

lemma has_shape3_subsample:
  assumes "has_shape3 a h w c"
  shows "has_shape3 (subsample a) ((h + 1) div 2) ((w + 1) div 2) c"
  using assms set_every_other[of "items a"]
  apply (auto simp add: has_shape3_def subsample_def list_all_iff length_every_other)
  using set_every_other by fastforce+

subsection \<open>What the other threads preserve\<close>

lemma other_thread_flag: "get_pcd_was_invoked w \<Longrightarrow> get_pcd_was_invoked (other_thread a w)"
  by (cases a)
     (simp_all add: stop_def manager_stop_def write_log_def get_pcd_mark_def
        manager_iteration_def Let_def)

lemma other_threads_flag: "get_pcd_was_invoked w \<Longrightarrow> get_pcd_was_invoked (other_threads as w)"
  by (induction as arbitrary: w) (simp_all add: other_thread_flag)

lemma other_thread_stopped: "\<not> running (manager w) \<Longrightarrow> \<not> running (manager (other_thread a w))"
  by (cases a)
     (simp_all add: stop_def manager_stop_def write_log_def get_pcd_mark_def
        manager_iteration_def Let_def)

lemma other_threads_stopped:
  "\<not> running (manager w) \<Longrightarrow> \<not> running (manager (other_threads as w))"
  by (induction as arbitrary: w) (simp_all add: other_thread_stopped)

subsection \<open>The point-cloud stage at build time\<close>

text \<open>
  C3, as the code has it: \<open>_configure_pc\<close> creates the point-cloud component exactly
  when depth is enabled in the configuration and the demand flag is set at that moment.
\<close>

theorem configure_pc_needs_depth:
  "fst (configure_pc stereo color w) = (user_wants_depth w \<and> get_pcd_was_invoked w)"
  by (simp add: configure_pc_def)

text \<open>
  C3 as stated fails when depth is disabled: the demand flag is set, and no point-cloud
  component is created.
\<close>

theorem configure_pc_depth_disabled_counterexample:
  "get_pcd_was_invoked (get_pcd_mark (init_worker 480 640 True False :: nat worker))
   \<and> \<not> fst (configure_pc False True (get_pcd_mark (init_worker 480 640 True False :: nat worker)))"
  by (simp add: configure_pc_def get_pcd_mark_def init_worker_def)

subsection \<open>The demand flag\<close>

lemma get_pcd_mark_funpow: "(get_pcd_mark ^^ Suc n) w = get_pcd_mark w"
  by (induction n) (simp_all add: get_pcd_mark_def)

text \<open>
  C6: entering \<open>get_pcd\<close> any number of times, at least once, leaves the state that one
  call leaves; the flag is then set; a further call changes nothing; and once the flag
  is set, a call is the identity and no step of another thread clears the flag.
\<close>

theorem get_pcd_mark_idempotent_monotonic:
  "(get_pcd_mark ^^ Suc n) w = get_pcd_mark w
   \<and> get_pcd_was_invoked ((get_pcd_mark ^^ Suc n) w)
   \<and> get_pcd_mark (get_pcd_mark w) = get_pcd_mark w
   \<and> (get_pcd_was_invoked w \<longrightarrow> get_pcd_mark w = w \<and> get_pcd_was_invoked (other_threads as w))"
  unfolding get_pcd_mark_funpow
  by (simp add: get_pcd_mark_def other_threads_flag)

theorem get_pcd_mark_idempotent_monotonic_witness:
  "(get_pcd_mark ^^ Suc 2) (get_pcd_mark (init_worker 480 640 True True :: nat worker))
     = get_pcd_mark (get_pcd_mark (init_worker 480 640 True True))
   \<and> get_pcd_was_invoked (get_pcd_mark (init_worker 480 640 True True :: nat worker))
   \<and> get_pcd_was_invoked (other_threads [GetPcdCall, StopCall, ManagerIteration]
        (get_pcd_mark (init_worker 480 640 True True :: nat worker)))"
proof -
  have f: "get_pcd_was_invoked (get_pcd_mark (init_worker 480 640 True True :: nat worker))"
    by (simp add: get_pcd_mark_def)
  from get_pcd_mark_idempotent_monotonic
      [where n = 2 and w = "get_pcd_mark (init_worker 480 640 True True :: nat worker)"
         and as = "[GetPcdCall, StopCall, ManagerIteration]"] f
  show ?thesis by blast
qed

subsection \<open>The accessors once the worker has stopped\<close>

lemma stop_not_running: "\<not> running (manager (stop w))"
  by (simp add: stop_def manager_stop_def write_log_def)

lemma get_color_image_pending:
  "\<not> running (manager w) \<Longrightarrow> list_all (\<lambda>s. color_image s = None) pre \<Longrightarrow>
   get_color_image (pre @ w # ws) = Some (color_image w) \<or> get_color_image (pre @ w # ws) = Some None"
  by (induction pre) auto

lemma get_depth_map_pending:
  "\<not> running (manager w) \<Longrightarrow> list_all (\<lambda>s. depth_map s = None) pre \<Longrightarrow>
   get_depth_map (pre @ w # ws) = Some (depth_map w) \<or> get_depth_map (pre @ w # ws) = Some None"
  by (induction pre) auto

lemma get_pcd_wait_pending:
  "\<not> running (manager w) \<Longrightarrow> list_all (\<lambda>s. pcd s = None) pre \<Longrightarrow>
   get_pcd_wait (pre @ w # ws) = Some (pcd w) \<or> get_pcd_wait (pre @ w # ws) = Some None"
  by (induction pre) auto

text \<open>
  C5: \<open>stop\<close> clears \<open>running\<close>, and no step of another thread sets it again. In a
  state \<open>w\<close> where \<open>running\<close> is false, a call of an accessor returns at once with the
  slot; a call that has been waiting through the states \<open>pre\<close> returns at its next
  test, which finds \<open>w\<close>; and when no frame was published for the modality the result
  is Python's \<open>None\<close>.
\<close>

theorem accessors_resolve_after_stop:
  assumes "\<not> running (manager w)"
  shows "get_color_image (w # ws) = Some (color_image w)
       \<and> get_depth_map (w # ws) = Some (depth_map w)
       \<and> get_pcd_wait (get_pcd_mark w # ws) = Some (pcd w)
       \<and> (list_all (\<lambda>s. color_image s = None) (pre @ [w]) \<longrightarrow>
            get_color_image (pre @ w # ws) = Some None)
       \<and> (list_all (\<lambda>s. depth_map s = None) (pre @ [w]) \<longrightarrow>
            get_depth_map (pre @ w # ws) = Some None)
       \<and> (list_all (\<lambda>s. pcd s = None) (pre @ [w]) \<longrightarrow>
            get_pcd_wait (pre @ w # ws) = Some None)
       \<and> \<not> running (manager (other_threads as w))
       \<and> \<not> running (manager (stop w0))"
  using assms get_color_image_pending[of w pre ws] get_depth_map_pending[of w pre ws]
    get_pcd_wait_pending[of w pre ws]
  by (auto simp add: get_pcd_mark_def stop_not_running other_threads_stopped)

theorem accessors_resolve_after_stop_witness:
  "\<not> running (manager (stop (init_worker 480 640 True False :: nat worker)))
   \<and> get_color_image [stop (init_worker 480 640 True False :: nat worker)] = Some None
   \<and> get_depth_map [init_worker 480 640 True False, init_worker 480 640 True False,
        stop (init_worker 480 640 True False :: nat worker), init_worker 480 640 True False]
       = Some None
   \<and> get_pcd_wait [init_worker 480 640 True False,
        stop (init_worker 480 640 True False :: nat worker)] = Some None"
proof -
  let ?i = "init_worker 480 640 True False :: nat worker"
  have s: "\<not> running (manager (stop ?i))"
    by (simp add: stop_def manager_stop_def write_log_def)
  have c: "color_image (stop ?i) = None" "depth_map (stop ?i) = None" "pcd (stop ?i) = None"
    "depth_map ?i = None" "pcd ?i = None"
    by (simp_all add: stop_def manager_stop_def write_log_def init_worker_def)
  from accessors_resolve_after_stop[OF s, where ws = "[]" and pre = "[?i]"]
    accessors_resolve_after_stop[OF s, where ws = "[?i]" and pre = "[?i, ?i]"] s c
  show ?thesis by simp
qed

subsection \<open>The ceiling on the point-cloud payload\<close>

lemma set_pcd_slot:
  "pcd (set_pcd points t wk) =
     Some \<lparr>np_array = (if nbytes points > MAX_GRPC_MESSAGE_BYTE_COUNT then subsample points else points),
           captured_at = t\<rparr>"
  by (simp add: set_pcd_def Let_def write_log_def)

lemma subsample_nth:
  assumes "has_shape3 a h w c" and "i < (h + 1) div 2" and "j < (w + 1) div 2"
  shows "items (subsample a) ! i ! j = items a ! (2 * i) ! (2 * j)"
proof -
  have len: "length (items a) = h" using assms(1) by (simp add: has_shape3_def)
  have i2: "2 * i < h" using assms(2) by arith
  have row: "length (items a ! (2 * i)) = w"
    using assms(1) i2 len by (simp add: has_shape3_def list_all_length)
  have "items (subsample a) ! i = every_other (every_other (items a) ! i)"
    using assms(2) len by (simp add: subsample_def length_every_other)
  also have "every_other (items a) ! i = items a ! (2 * i)"
    using assms(2) len by (simp add: nth_every_other)
  finally show ?thesis using assms(3) row by (simp add: nth_every_other)
qed

lemma nbytes_subsample:
  assumes "has_shape3 a h w c"
  shows "nbytes (subsample a) = ((h + 1) div 2) * ((w + 1) div 2) * c * itemsize a"
  using count_items_rect[OF has_shape3_subsample[OF assms]]
  by (simp add: nbytes_def subsample_def)

lemma nbytes_subsample_even:
  assumes "has_shape3 a h w c" and "even h" and "even w"
    and "nbytes a \<le> 4 * MAX_GRPC_MESSAGE_BYTE_COUNT"
  shows "nbytes (subsample a) \<le> MAX_GRPC_MESSAGE_BYTE_COUNT"
proof -
  obtain p where p: "h = 2 * p" using assms(2) by (auto elim: evenE)
  obtain q where q: "w = 2 * q" using assms(3) by (auto elim: evenE)
  have "nbytes a = 4 * (p * q * c * itemsize a)"
    using count_items_rect[OF assms(1)] by (simp add: nbytes_def p q)
  moreover have "nbytes (subsample a) = p * q * c * itemsize a"
    using nbytes_subsample[OF assms(1)] by (simp add: p q)
  ultimately show ?thesis using assms(4) by simp
qed

text \<open>
  C8, as the code has it: \<open>_set_pcd\<close> stores the point array unchanged when its byte
  size is at most the ceiling, and otherwise its subsample, once: every other row and
  every other column, all channels. For an array of shape \<open>(h, w, c)\<close> the subsample
  has shape \<open>(\<lceil>h/2\<rceil>, \<lceil>w/2\<rceil>, c)\<close> and that many items; it is within the ceiling
  when \<open>h\<close> and \<open>w\<close> are even and the raw payload is at most four times the ceiling.
\<close>

theorem set_pcd_subsamples_once:
  assumes "has_shape3 points h w c"
  shows "pcd (set_pcd points t wk) =
           Some \<lparr>np_array = (if nbytes points > MAX_GRPC_MESSAGE_BYTE_COUNT
                              then subsample points else points),
                 captured_at = t\<rparr>
       \<and> (\<forall>i j. i < (h + 1) div 2 \<and> j < (w + 1) div 2 \<longrightarrow>
              items (subsample points) ! i ! j = items points ! (2 * i) ! (2 * j))
       \<and> has_shape3 (subsample points) ((h + 1) div 2) ((w + 1) div 2) c
       \<and> nbytes (subsample points) = ((h + 1) div 2) * ((w + 1) div 2) * c * itemsize points
       \<and> (even h \<and> even w \<and> nbytes points \<le> 4 * MAX_GRPC_MESSAGE_BYTE_COUNT \<longrightarrow>
              nbytes (subsample points) \<le> MAX_GRPC_MESSAGE_BYTE_COUNT)"
  using set_pcd_slot[of points t wk] subsample_nth[OF assms] has_shape3_subsample[OF assms]
    nbytes_subsample[OF assms] nbytes_subsample_even[OF assms]
  by blast

theorem set_pcd_subsamples_once_witness:
  "has_shape3 \<lparr>itemsize = 2000000, items = [[[1::nat], [2]], [[3], [4]]]\<rparr> 2 2 1
   \<and> pcd (set_pcd \<lparr>itemsize = 2000000, items = [[[1::nat], [2]], [[3], [4]]]\<rparr> 7
            (init_worker 480 640 True True))
       = Some \<lparr>np_array = \<lparr>itemsize = 2000000, items = [[[1::nat]]]\<rparr>, captured_at = 7\<rparr>
   \<and> nbytes \<lparr>itemsize = 2000000, items = [[[1::nat], [2]], [[3], [4]]]\<rparr> = 8000000
   \<and> nbytes \<lparr>itemsize = 2000000, items = [[[1::nat]]]\<rparr> \<le> MAX_GRPC_MESSAGE_BYTE_COUNT"
proof -
  let ?a = "\<lparr>itemsize = 2000000, items = [[[1::nat], [2]], [[3], [4]]]\<rparr>"
  have s: "has_shape3 ?a 2 2 1" by (simp add: has_shape3_def)
  have n: "nbytes ?a = 8000000" by (simp add: nbytes_def count_items_def)
  have sub: "subsample ?a = \<lparr>itemsize = 2000000, items = [[[1::nat]]]\<rparr>"
    by (simp add: subsample_def)
  from set_pcd_subsamples_once[OF s, of 7 "init_worker 480 640 True True"] s n sub
  show ?thesis by (simp add: MAX_GRPC_MESSAGE_BYTE_COUNT_def)
qed

lemma count_items_replicate:
  "count_items (replicate h (replicate w (replicate c x))) = h * w * c"
  by (simp add: count_items_def sum_list_replicate map_replicate_const)

text \<open>
  C8 as stated fails on a payload of more than four times the ceiling: a
  \<open>2048 \<times> 2048 \<times> 3\<close> array of 4-byte items has 50331648 bytes, and the frame stored has
  12582912 bytes, above the ceiling of 4194304.
\<close>

theorem set_pcd_payload_counterexample:
  "nbytes \<lparr>itemsize = 4, items = replicate 2048 (replicate 2048 (replicate 3 (0::nat)))\<rparr>
     > MAX_GRPC_MESSAGE_BYTE_COUNT
   \<and> map_option (\<lambda>cd. nbytes (np_array cd))
       (pcd (set_pcd \<lparr>itemsize = 4, items = replicate 2048 (replicate 2048 (replicate 3 (0::nat)))\<rparr>
               0 (init_worker 480 640 True True)))
     = Some 12582912
   \<and> \<not> (12582912 \<le> MAX_GRPC_MESSAGE_BYTE_COUNT)"
  by (simp add: set_pcd_slot nbytes_def subsample_def every_other_replicate
        count_items_replicate MAX_GRPC_MESSAGE_BYTE_COUNT_def)

subsection \<open>What the publish steps leave alone\<close>

lemma write_log_fields [simp]:
  "height (write_log m w) = height w" "width (write_log m w) = width w"
  "user_wants_color (write_log m w) = user_wants_color w"
  "user_wants_depth (write_log m w) = user_wants_depth w"
  "color_image (write_log m w) = color_image w" "depth_map (write_log m w) = depth_map w"
  "pcd (write_log m w) = pcd w" "get_pcd_was_invoked (write_log m w) = get_pcd_was_invoked w"
  "manager (write_log m w) = manager w" "logger (write_log m w) = logger w @ [m]"
  by (simp_all add: write_log_def)

lemma same_control_refl [simp]: "same_control w w"
  by (simp add: same_control_def)

lemma same_control_trans: "same_control w w1 \<Longrightarrow> same_control w1 w2 \<Longrightarrow> same_control w w2"
  by (simp add: same_control_def)

lemma same_control_write_log [simp]: "same_control w (write_log m w)"
  by (simp add: same_control_def)

lemma same_control_set_color_image: "same_control w (set_color_image arr t w)"
  by (simp add: same_control_def set_color_image_def)

lemma same_control_set_pcd: "same_control w (set_pcd points t w)"
  by (simp add: same_control_def set_pcd_def Let_def)

lemma same_control_set_depth_map: "same_control w (outcome_state (set_depth_map resize frame t w))"
  by (simp add: same_control_def set_depth_map_def Let_def split: sum.splits)

lemma same_control_poll: "same_control w (outcome_state (poll resize oak evs w))"
proof (induction resize oak evs w rule: poll.induct)
  case (3 resize oak frame t evs w)
  show ?case
  proof (cases "set_depth_map resize frame t w")
    case (Normal w1)
    with 3 same_control_set_depth_map[of w resize frame t] show ?thesis
      by (auto intro: same_control_trans)
  next
    case (Raised e w1)
    with same_control_set_depth_map[of w resize frame t] show ?thesis
      by (auto simp add: 3)
  qed
next
  case (4 resize oak points t evs w)
  then show ?case
    using same_control_set_pcd[of w points t] by (auto intro: same_control_trans)
qed simp_all

lemma same_control_handle_color: "same_control w (outcome_state (handle_color_output out w))"
  by (auto simp add: handle_color_output_def same_control_set_color_image
      split: sum.splits option.splits)

lemma same_control_handle_depth:
  "same_control w (outcome_state (handle_depth_and_pcd_output resize oak evs w))"
  by (simp add: handle_depth_and_pcd_output_def same_control_poll)

lemma same_control_round_body:
  "same_control (other_threads (acts r) w) (outcome_state (round_body resize oak r w))"
proof (cases "handle_color_output (color_out r) (other_threads (acts r) w)")
  case (Normal w1)
  with same_control_handle_color[of "other_threads (acts r) w" "color_out r"]
    same_control_handle_depth[of w1 resize oak "poll_out r"]
  show ?thesis by (auto simp add: round_body_def intro: same_control_trans)
next
  case (Raised e w1)
  with same_control_handle_color[of "other_threads (acts r) w" "color_out r"]
  show ?thesis by (simp add: round_body_def)
qed

subsection \<open>The shape of the depth frames\<close>

lemma depth_ok_frame:
  "depth_map w' = depth_map w \<Longrightarrow> height w' = height w \<Longrightarrow> width w' = width w \<Longrightarrow>
   depth_ok w' = depth_ok w"
  by (simp add: depth_ok_def split: option.splits)

lemma other_thread_depth:
  "depth_map (other_thread a w) = depth_map w \<and> height (other_thread a w) = height w
   \<and> width (other_thread a w) = width w"
  by (cases a)
     (simp_all add: stop_def manager_stop_def get_pcd_mark_def manager_iteration_def Let_def)

lemma other_threads_depth:
  "depth_map (other_threads as w) = depth_map w \<and> height (other_threads as w) = height w
   \<and> width (other_threads as w) = width w"
  by (induction as arbitrary: w) (simp_all add: other_thread_depth)

lemma depth_ok_other_threads: "depth_ok (other_threads as w) = depth_ok w"
  using other_threads_depth[of as w] by (intro depth_ok_frame) simp_all

lemma depth_ok_write_log [simp]: "depth_ok (write_log m w) = depth_ok w"
  by (rule depth_ok_frame) simp_all

lemma depth_ok_set_color_image: "depth_ok (set_color_image arr t w) = depth_ok w"
  by (rule depth_ok_frame) (simp_all add: set_color_image_def)

lemma depth_ok_set_pcd: "depth_ok (set_pcd points t w) = depth_ok w"
  by (rule depth_ok_frame) (simp_all add: set_pcd_def Let_def)

lemma set_depth_map_normal:
  assumes "\<forall>a dw dh b. resize a (dw, dh) = Inr b \<longrightarrow> shape2 b = (dh, dw)"
    and "set_depth_map resize frame t w = Normal w1"
  shows "\<exists>a. depth_map w1 = Some \<lparr>np_array = a, captured_at = t\<rparr> \<and> shape2 a = (height w1, width w1)"
  using assms by (auto simp add: set_depth_map_def Let_def split: sum.splits if_splits)

lemma set_depth_map_raised:
  "set_depth_map resize frame t w = Raised e w1 \<Longrightarrow> depth_map w1 = depth_map w \<and> depth_ok w1 = depth_ok w"
  by (auto simp add: set_depth_map_def Let_def split: sum.splits if_splits)

lemma depth_ok_set_depth_map:
  assumes "\<forall>a dw dh b. resize a (dw, dh) = Inr b \<longrightarrow> shape2 b = (dh, dw)" and "depth_ok w"
  shows "depth_ok (outcome_state (set_depth_map resize frame t w))"
proof (cases "set_depth_map resize frame t w")
  case (Normal w1)
  with set_depth_map_normal[OF assms(1) Normal] show ?thesis by (auto simp add: depth_ok_def)
next
  case (Raised e w1)
  with set_depth_map_raised[OF Raised] assms(2) show ?thesis by simp
qed

lemma depth_ok_poll:
  assumes c: "\<forall>a dw dh b. resize a (dw, dh) = Inr b \<longrightarrow> shape2 b = (dh, dw)"
  shows "depth_ok w \<Longrightarrow> depth_ok (outcome_state (poll resize oak evs w))"
  using c
proof (induction resize oak evs w rule: poll.induct)
  case (3 resize oak frame t evs w)
  show ?case
  proof (cases "stereo_component oak")
    case True
    show ?thesis
    proof (cases "set_depth_map resize frame t w")
      case (Normal w1)
      have "depth_ok w1"
        using depth_ok_set_depth_map[OF "3.prems"(2) "3.prems"(1), of frame t] Normal by simp
      with 3 True Normal show ?thesis by simp
    next
      case (Raised e w1)
      with set_depth_map_raised[OF Raised] "3.prems" True show ?thesis by simp
    qed
  next
    case False
    with 3 show ?thesis by simp
  qed
next
  case (4 resize oak points t evs w)
  then show ?case by (simp add: depth_ok_set_pcd)
qed simp_all

lemma depth_ok_round_body:
  assumes c: "\<forall>a dw dh b. resize a (dw, dh) = Inr b \<longrightarrow> shape2 b = (dh, dw)"
    and ok: "depth_ok w"
  shows "depth_ok (outcome_state (round_body resize oak r w))"
proof -
  have ok1: "depth_ok (other_threads (acts r) w)" using ok by (simp add: depth_ok_other_threads)
  show ?thesis
  proof (cases "handle_color_output (color_out r) (other_threads (acts r) w)")
    case (Normal w1)
    then have "depth_ok w1" using ok1
      by (auto simp add: handle_color_output_def depth_ok_set_color_image
          split: if_splits sum.splits option.splits)
    then show ?thesis using Normal depth_ok_poll[OF c, of w1 oak "poll_out r"]
      by (simp add: round_body_def handle_depth_and_pcd_output_def)
  next
    case (Raised e w1)
    then have "depth_ok w1" using ok1
      by (auto simp add: handle_color_output_def split: if_splits sum.splits option.splits)
    then show ?thesis using Raised by (simp add: round_body_def)
  qed
qed

lemma depth_ok_capture_loop:
  assumes c: "\<forall>a dw dh b. resize a (dw, dh) = Inr b \<longrightarrow> shape2 b = (dh, dw)"
  shows "depth_ok w \<Longrightarrow> depth_ok (progress_state (capture_loop resize oak previous rs w))"
proof (induction rs arbitrary: w)
  case Nil
  then show ?case by simp
next
  case (Cons r rs)
  show ?case
  proof (cases "round_body resize oak r w")
    case (Normal w1)
    with depth_ok_round_body[OF c Cons.prems, of oak r] have "depth_ok w1" by simp
    with Cons.IH Normal Cons.prems show ?thesis by auto
  next
    case (Raised e w1)
    with depth_ok_round_body[OF c Cons.prems, of oak r] Cons.prems show ?thesis by simp
  qed
qed

lemma build_pipeline_state:
  "depth_map (snd (snd (build_pipeline w))) = depth_map w
   \<and> height (snd (snd (build_pipeline w))) = height w
   \<and> width (snd (snd (build_pipeline w))) = width w"
  by (simp add: build_pipeline_def configure_color_def configure_stereo_def configure_pc_def)

lemma depth_ok_pipeline_body:
  assumes c: "\<forall>a dw dh b. resize a (dw, dh) = Inr b \<longrightarrow> shape2 b = (dh, dw)"
    and ok: "depth_ok w"
  shows "depth_ok (progress_state (pipeline_body resize l w))"
proof -
  let ?w0 = "write_log InitializingPipeline (other_threads (build_acts l) w)"
  have ok0: "depth_ok ?w0" using ok by (simp add: depth_ok_other_threads)
  obtain oak prev w3 where b: "build_pipeline ?w0 = (oak, prev, w3)" by (cases "build_pipeline ?w0")
  have "depth_ok w3 = depth_ok ?w0"
    using build_pipeline_state[of ?w0] b by (intro depth_ok_frame) simp_all
  then have ok3: "depth_ok w3" using ok0 by simp
  show ?thesis
    using ok0 ok3 b depth_ok_capture_loop[OF c ok3, of oak prev "rounds l"]
    by (simp add: pipeline_body_def Let_def split: option.splits)
qed

lemma depth_ok_pipeline_loop:
  assumes c: "\<forall>a dw dh b. resize a (dw, dh) = Inr b \<longrightarrow> shape2 b = (dh, dw)"
    and ok: "depth_ok w"
  shows "depth_ok (progress_state (pipeline_loop resize l w))"
proof -
  have m: "depth_ok (x\<lparr>manager := mg\<rparr>) = depth_ok x" for x :: "'a worker" and mg
    by (rule depth_ok_frame) simp_all
  show ?thesis
    using depth_ok_pipeline_body[OF c ok, of l]
    by (auto simp add: pipeline_loop_def Let_def m split: progress.splits outcome.splits)
qed

lemma depth_ok_run:
  assumes c: "\<forall>a dw dh b. resize a (dw, dh) = Inr b \<longrightarrow> shape2 b = (dh, dw)"
  shows "depth_ok w \<Longrightarrow> depth_ok (progress_state (run resize ls w))"
proof (induction ls arbitrary: w)
  case Nil
  then show ?case by simp
next
  case (Cons l ls)
  show ?case
    using depth_ok_pipeline_loop[OF c Cons.prems, of l] Cons.IH Cons.prems
    by (auto split: progress.splits outcome.splits)
qed

lemma nearest_resize_contract:
  "\<forall>a dw dh b. nearest_resize a (dw, dh) = Inr b \<longrightarrow> shape2 b = (dh, dw)"
  by (auto simp add: nearest_resize_def shape2_def split: if_splits list.splits)

text \<open>
  C10: for every resize that returns an array of the size it is asked for, as
  \<open>cv2.resize\<close> does, a depth publish step that completes stores a frame of shape
  \<open>(height, width)\<close> with the time of that step, a step whose resize raises stores
  nothing, and so the depth slot is empty or of that shape in every state the worker
  thread reaches.
\<close>

theorem depth_map_has_configured_shape:
  assumes "\<forall>a dw dh b. resize a (dw, dh) = Inr b \<longrightarrow> shape2 b = (dh, dw)"
  shows "(\<forall>w1. set_depth_map resize frame t w = Normal w1 \<longrightarrow>
            (\<exists>a. depth_map w1 = Some \<lparr>np_array = a, captured_at = t\<rparr>
                 \<and> shape2 a = (height w1, width w1)))
       \<and> (\<forall>e w1. set_depth_map resize frame t w = Raised e w1 \<longrightarrow> depth_map w1 = depth_map w)
       \<and> (depth_ok w \<longrightarrow> depth_ok (progress_state (run resize ls w)))"
  using set_depth_map_normal[OF assms] set_depth_map_raised depth_ok_run[OF assms]
  by blast

theorem depth_map_has_configured_shape_witness:
  "(\<exists>a. depth_map (outcome_state
            (set_depth_map nearest_resize [[1, 2], [3, 4 :: nat]] 5 (init_worker 1 2 True True)))
          = Some \<lparr>np_array = a, captured_at = 5\<rparr> \<and> shape2 a = (1, 2))
   \<and> depth_map (outcome_state
          (set_depth_map nearest_resize ([] :: nat array2) 6 (init_worker 1 2 True True)))
       = None
   \<and> depth_ok (progress_state (run nearest_resize
        [\<lparr>build_acts = [], open_raises = None, start_raises = None,
          rounds = [\<lparr>acts = [], color_out = Inr None,
                     poll_out = [Inr (DisparityDepthPacket [[1, 2], [3, 4 :: nat]], 5)]\<rparr>]\<rparr>]
        (init_worker 1 2 True True)))"
proof -
  let ?w = "init_worker 1 2 True True :: nat worker"
  let ?f = "[[1, 2], [3, 4 :: nat]]"
  let ?ls = "[\<lparr>build_acts = [], open_raises = None, start_raises = None,
          rounds = [\<lparr>acts = [], color_out = Inr None,
                     poll_out = [Inr (DisparityDepthPacket ?f, 5)]\<rparr>]\<rparr>]"
  have r: "nearest_resize ?f (2, 1) = Inr [[1, 2]]"
    by (simp add: nearest_resize_def upt_conv_Cons)
  have n: "\<exists>w1. set_depth_map nearest_resize ?f 5 ?w = Normal w1"
    using r by (simp add: set_depth_map_def Let_def shape2_def init_worker_def write_log_def)
  have ok: "depth_ok ?w" by (simp add: depth_ok_def init_worker_def)
  have hw: "height ?w = 1" "width ?w = 2" by (simp_all add: init_worker_def)
  from n obtain w1 where w1: "set_depth_map nearest_resize ?f 5 ?w = Normal w1" by blast
  have k: "height w1 = 1" "width w1 = 2"
    using same_control_set_depth_map[of ?w nearest_resize ?f 5] w1 hw
    by (simp_all add: same_control_def)
  note T = depth_map_has_configured_shape[OF nearest_resize_contract,
      where frame = ?f and t = 5 and w = ?w and ls = ?ls]
  from T w1 k obtain a where a: "depth_map w1 = Some \<lparr>np_array = a, captured_at = 5\<rparr>"
    "shape2 a = (1, 2)" by auto
  from T ok have d: "depth_ok (progress_state (run nearest_resize ?ls ?w))" by blast
  have "\<exists>e w2. set_depth_map nearest_resize ([] :: nat array2) 6 ?w = Raised e w2"
    by (simp add: set_depth_map_def Let_def shape2_def init_worker_def nearest_resize_def)
  then obtain e w2 where w2: "set_depth_map nearest_resize ([] :: nat array2) 6 ?w = Raised e w2"
    by blast
  from depth_map_has_configured_shape[OF nearest_resize_contract,
      where frame = "[]" and t = 6 and w = ?w and ls = ?ls] w2
  have "depth_map w2 = depth_map ?w" by blast
  then have n: "depth_map w2 = None" by (simp add: init_worker_def)
  show ?thesis unfolding w1 w2 outcome_state.simps using a d n by blast
qed

subsection \<open>Properties that every step of the worker thread preserves\<close>

lemma other_threads_preserves:
  assumes "\<And>a w. P w \<Longrightarrow> P (other_thread a w)"
  shows "P w \<Longrightarrow> P (other_threads as w)"
  by (induction as arbitrary: w) (simp_all add: assms)

lemma poll_preserves:
  assumes d: "\<And>f t w. P w \<Longrightarrow> P (outcome_state (set_depth_map resize f t w))"
    and p: "\<And>pts t w. P w \<Longrightarrow> P (set_pcd pts t w)"
  shows "P w \<Longrightarrow> P (outcome_state (poll resize oak evs w))"
proof (induction evs arbitrary: w)
  case Nil
  then show ?case by simp
next
  case (Cons ev evs)
  show ?case
  proof (cases ev)
    case (Inl e)
    with Cons.prems show ?thesis by simp
  next
    case (Inr pk)
    obtain k t where pk: "pk = (k, t)" by (cases pk)
    show ?thesis
    proof (cases k)
      case (DisparityDepthPacket frame)
      show ?thesis
      proof (cases "set_depth_map resize frame t w")
        case (Normal w1)
        with d[OF Cons.prems, of frame t] have "P w1" by simp
        with Cons Normal Inr pk DisparityDepthPacket show ?thesis by simp
      next
        case (Raised e w1)
        with d[OF Cons.prems, of frame t] have "P w1" by simp
        with Cons Raised Inr pk DisparityDepthPacket show ?thesis by simp
      qed
    next
      case (PointcloudPacket pts)
      with Cons Inr pk p[OF Cons.prems, of pts t] show ?thesis by simp
    qed
  qed
qed

lemma round_body_preserves:
  assumes o: "\<And>a w. P w \<Longrightarrow> P (other_thread a w)"
    and c: "\<And>arr t w. P w \<Longrightarrow> P (set_color_image arr t w)"
    and d: "\<And>f t w. P w \<Longrightarrow> P (outcome_state (set_depth_map resize f t w))"
    and p: "\<And>pts t w. P w \<Longrightarrow> P (set_pcd pts t w)"
    and w: "P w"
  shows "P (outcome_state (round_body resize oak r w))"
proof -
  have w0: "P (other_threads (acts r) w)" using other_threads_preserves[of P, OF o w] .
  show ?thesis
  proof (cases "handle_color_output (color_out r) (other_threads (acts r) w)")
    case (Normal w1)
    then have "P w1" using w0 c
      by (auto simp add: handle_color_output_def split: if_splits sum.splits option.splits)
    then show ?thesis using Normal poll_preserves[of P resize, OF d p, of w1 oak "poll_out r"]
      by (simp add: round_body_def handle_depth_and_pcd_output_def)
  next
    case (Raised e w1)
    then have "P w1" using w0
      by (auto simp add: handle_color_output_def split: if_splits sum.splits option.splits)
    then show ?thesis using Raised by (simp add: round_body_def)
  qed
qed

lemma capture_loop_preserves:
  assumes o: "\<And>a w. P w \<Longrightarrow> P (other_thread a w)"
    and c: "\<And>arr t w. P w \<Longrightarrow> P (set_color_image arr t w)"
    and d: "\<And>f t w. P w \<Longrightarrow> P (outcome_state (set_depth_map resize f t w))"
    and p: "\<And>pts t w. P w \<Longrightarrow> P (set_pcd pts t w)"
  shows "P w \<Longrightarrow> P (progress_state (capture_loop resize oak previous rs w))"
proof (induction rs arbitrary: w)
  case Nil
  then show ?case by simp
next
  case (Cons r rs)
  note rb = round_body_preserves[of P resize, OF o c d p Cons.prems, of oak r]
  show ?case
  proof (cases "round_body resize oak r w")
    case (Normal w1)
    with rb have "P w1" by simp
    with Cons.IH Normal Cons.prems show ?thesis by auto
  next
    case (Raised e w1)
    with rb Cons.prems show ?thesis by simp
  qed
qed

lemma build_pipeline_preserves:
  assumes l: "\<And>m w. failure_counts [m] = [] \<Longrightarrow> P w \<Longrightarrow> P (write_log m w)"
    and w: "P w"
  shows "P (snd (snd (build_pipeline w)))"
  using w by (simp add: build_pipeline_def configure_color_def configure_stereo_def
      configure_pc_def l)

lemma pipeline_body_preserves:
  assumes o: "\<And>a w. P w \<Longrightarrow> P (other_thread a w)"
    and c: "\<And>arr t w. P w \<Longrightarrow> P (set_color_image arr t w)"
    and d: "\<And>f t w. P w \<Longrightarrow> P (outcome_state (set_depth_map resize f t w))"
    and p: "\<And>pts t w. P w \<Longrightarrow> P (set_pcd pts t w)"
    and l: "\<And>m w. failure_counts [m] = [] \<Longrightarrow> P w \<Longrightarrow> P (write_log m w)"
    and w: "P w"
  shows "P (progress_state (pipeline_body resize l0 w))"
proof -
  let ?w0 = "write_log InitializingPipeline (other_threads (build_acts l0) w)"
  have w0: "P ?w0" using other_threads_preserves[of P, OF o w] by (simp add: l)
  obtain oak prev w3 where b: "build_pipeline ?w0 = (oak, prev, w3)" by (cases "build_pipeline ?w0")
  have w3: "P w3" using build_pipeline_preserves[of P, OF l w0] b by simp
  show ?thesis
    using w0 w3 b capture_loop_preserves[of P resize, OF o c d p w3, of oak prev "rounds l0"]
    by (simp add: pipeline_body_def Let_def split: option.splits)
qed

subsection \<open>The handler of the pipeline loop\<close>

lemma pipeline_loop_unfolded:
  "pipeline_loop resize l w =
     (case pipeline_body resize l w of
        Pending w1 \<Rightarrow> Pending w1
      | Done (Normal w1) \<Rightarrow> Done (Normal (write_log ExitingPipelineLoop w1))
      | Done (Raised e w1) \<Rightarrow>
          Done (Normal (write_log ExitingPipelineLoop (write_log (FailureCount 1 e) w1))))"
  by (simp add: pipeline_loop_def MAX_PIPELINE_FAILURES_def split: progress.splits outcome.splits)

lemma pipeline_loop_not_raised: "pipeline_loop resize l w \<noteq> Done (Raised e w')"
  by (simp add: pipeline_loop_unfolded split: progress.splits outcome.splits)

lemma run_not_raised: "run resize ls w \<noteq> Done (Raised e w')"
proof (induction ls arbitrary: w)
  case Nil
  then show ?case by simp
next
  case (Cons l ls)
  then show ?case
    using pipeline_loop_not_raised[of resize l w]
    by (auto split: progress.splits outcome.splits)
qed

text \<open>
  C9: no exception leaves \<open>_pipeline_loop\<close> or \<open>run\<close>. Whatever raises in the body
  (opening the device, starting the pipeline, a read, a callback of the poll), the
  handler turns it into a normal return that leaves the slots and \<open>running\<close> as
  they were at the raise, and \<open>run\<close> goes on to its next loop test with that state.
\<close>

theorem device_exceptions_absorbed:
  "pipeline_loop resize l w \<noteq> Done (Raised e w')
   \<and> run resize ls w \<noteq> Done (Raised e w')
   \<and> (pipeline_body resize l w = Done (Raised e w1) \<longrightarrow>
        (\<exists>w2. pipeline_loop resize l w = Done (Normal w2)
              \<and> color_image w2 = color_image w1 \<and> depth_map w2 = depth_map w1
              \<and> pcd w2 = pcd w1 \<and> running (manager w2) = running (manager w1)
              \<and> (running (manager w) \<longrightarrow> run resize (l # ls) w = run resize ls w2)))"
  using pipeline_loop_not_raised[of resize l w e w'] run_not_raised[of resize ls w e w']
  by (auto simp add: pipeline_loop_unfolded)

subsection \<open>Consecutive failures\<close>

lemma failing_lifetime_body:
  assumes "running (manager w)" and "\<not> needs_reconfigure (manager w)" and "user_wants_depth w"
  shows "\<exists>w1. pipeline_body resize failing_lifetime w = Done (Raised link_error w1)
            \<and> running (manager w1) \<and> \<not> needs_reconfigure (manager w1) \<and> user_wants_depth w1"
  using assms
  by (simp add: pipeline_body_def failing_lifetime_def failing_round_def build_pipeline_def
      configure_color_def configure_stereo_def configure_pc_def Let_def round_body_def
      handle_color_output_def handle_depth_and_pcd_output_def manager_iteration_def)

lemma failing_lifetime_loop:
  assumes "running (manager w)" and "\<not> needs_reconfigure (manager w)" and "user_wants_depth w"
  shows "\<exists>w2. pipeline_loop resize failing_lifetime w = Done (Normal w2)
            \<and> running (manager w2) \<and> \<not> needs_reconfigure (manager w2) \<and> user_wants_depth w2"
  using failing_lifetime_body[OF assms, of resize]
  by (auto simp add: pipeline_loop_unfolded)

lemma failing_lifetimes_run:
  assumes "running (manager w)" and "\<not> needs_reconfigure (manager w)" and "user_wants_depth w"
  shows "\<exists>w2. run resize (replicate n failing_lifetime) w = Pending w2 \<and> running (manager w2)"
  using assms
proof (induction n arbitrary: w)
  case 0
  then show ?case by simp
next
  case (Suc n)
  from failing_lifetime_loop[OF Suc.prems, of resize] obtain w2 where
    w2: "pipeline_loop resize failing_lifetime w = Done (Normal w2)" "running (manager w2)"
    "\<not> needs_reconfigure (manager w2)" "user_wants_depth w2" by blast
  from Suc.IH[OF w2(2-4)] w2(1) Suc.prems(1) show ?case by simp
qed

lemma no_escalation_other_thread:
  "\<not> needs_reconfigure (manager w) \<and> reconfigure_calls (manager w) = n \<Longrightarrow>
   \<not> needs_reconfigure (manager (other_thread a w))
   \<and> reconfigure_calls (manager (other_thread a w)) = n"
  by (cases a)
     (simp_all add: stop_def manager_stop_def get_pcd_mark_def manager_iteration_def Let_def)

lemma no_escalation_pipeline_body:
  assumes "\<not> needs_reconfigure (manager w) \<and> reconfigure_calls (manager w) = n"
  shows "\<not> needs_reconfigure (manager (progress_state (pipeline_body resize l w)))
       \<and> reconfigure_calls (manager (progress_state (pipeline_body resize l w))) = n"
proof (rule pipeline_body_preserves
    [of "\<lambda>x. \<not> needs_reconfigure (manager x) \<and> reconfigure_calls (manager x) = n"])
  fix a and x :: "'a worker"
  assume "\<not> needs_reconfigure (manager x) \<and> reconfigure_calls (manager x) = n"
  then show "\<not> needs_reconfigure (manager (other_thread a x))
       \<and> reconfigure_calls (manager (other_thread a x)) = n"
    by (rule no_escalation_other_thread)
next
  fix arr t and x :: "'a worker"
  assume "\<not> needs_reconfigure (manager x) \<and> reconfigure_calls (manager x) = n"
  then show "\<not> needs_reconfigure (manager (set_color_image arr t x))
       \<and> reconfigure_calls (manager (set_color_image arr t x)) = n"
    using same_control_set_color_image[of x arr t] by (simp add: same_control_def)
next
  fix f t and x :: "'a worker"
  assume "\<not> needs_reconfigure (manager x) \<and> reconfigure_calls (manager x) = n"
  then show "\<not> needs_reconfigure (manager (outcome_state (set_depth_map resize f t x)))
       \<and> reconfigure_calls (manager (outcome_state (set_depth_map resize f t x))) = n"
    using same_control_set_depth_map[of x resize f t] by (simp add: same_control_def)
next
  fix pts t and x :: "'a worker"
  assume "\<not> needs_reconfigure (manager x) \<and> reconfigure_calls (manager x) = n"
  then show "\<not> needs_reconfigure (manager (set_pcd pts t x))
       \<and> reconfigure_calls (manager (set_pcd pts t x)) = n"
    using same_control_set_pcd[of x pts t] by (simp add: same_control_def)
next
  fix m and x :: "'a worker"
  assume "\<not> needs_reconfigure (manager x) \<and> reconfigure_calls (manager x) = n"
  then show "\<not> needs_reconfigure (manager (write_log m x))
       \<and> reconfigure_calls (manager (write_log m x)) = n"
    by simp
next
  show "\<not> needs_reconfigure (manager w) \<and> reconfigure_calls (manager w) = n" by (rule assms)
qed

lemma no_escalation_pipeline_loop:
  assumes "\<not> needs_reconfigure (manager w) \<and> reconfigure_calls (manager w) = n"
  shows "\<not> needs_reconfigure (manager (progress_state (pipeline_loop resize l w)))
       \<and> reconfigure_calls (manager (progress_state (pipeline_loop resize l w))) = n"
  using no_escalation_pipeline_body[OF assms, of resize l]
  by (auto simp add: pipeline_loop_unfolded split: progress.splits outcome.splits)

lemma no_escalation_run:
  "\<not> needs_reconfigure (manager w) \<and> reconfigure_calls (manager w) = n \<Longrightarrow>
   \<not> needs_reconfigure (manager (progress_state (run resize ls w)))
   \<and> reconfigure_calls (manager (progress_state (run resize ls w))) = n"
proof (induction ls arbitrary: w)
  case Nil
  then show ?case by simp
next
  case (Cons l ls)
  note pl = no_escalation_pipeline_loop[OF Cons.prems, of resize l]
  show ?case
  proof (cases "running (manager w)")
    case False
    with Cons.prems show ?thesis by simp
  next
    case True
    show ?thesis
    proof (cases "pipeline_loop resize l w")
      case (Pending w1)
      with pl True show ?thesis by simp
    next
      case (Done out)
      show ?thesis
      proof (cases out)
        case (Normal w1)
        with pl Done have "\<not> needs_reconfigure (manager w1) \<and> reconfigure_calls (manager w1) = n"
          by simp
        from Cons.IH[OF this] Done Normal True show ?thesis by simp
      next
        case (Raised e w1)
        with pl Done True show ?thesis by simp
      qed
    qed
  qed
qed

text \<open>
  C1 does not hold of the code. The counter \<open>failures\<close> is a local variable of
  \<open>_pipeline_loop\<close>, set to zero at every call, so the handler only ever compares 1
  with the threshold: whatever the script, the worker thread never sets
  \<open>needs_reconfigure\<close>, and the manager never invokes the replacement callback. After
  four consecutive transient errors the flag is still false, the callback has not been
  invoked, and the worker thread is still in its loop.
\<close>

theorem failures_never_request_reconfigure:
  assumes "\<not> needs_reconfigure (manager w)"
  shows "\<not> needs_reconfigure (manager (progress_state (run resize ls w)))
       \<and> reconfigure_calls (manager (progress_state (run resize ls w)))
           = reconfigure_calls (manager w)"
  using no_escalation_run[of w "reconfigure_calls (manager w)" resize ls] assms by simp

theorem failures_never_request_reconfigure_witness:
  "\<not> needs_reconfigure (manager (progress_state
        (run nearest_resize (replicate 4 failing_lifetime) (init_worker 480 640 True True :: nat worker))))
   \<and> reconfigure_calls (manager (progress_state
        (run nearest_resize (replicate 4 failing_lifetime) (init_worker 480 640 True True :: nat worker))))
       = 0
   \<and> (\<exists>w2. run nearest_resize (replicate 4 failing_lifetime)
              (init_worker 480 640 True True :: nat worker) = Pending w2
            \<and> running (manager w2))"
proof -
  let ?w = "init_worker 480 640 True True :: nat worker"
  have i: "running (manager ?w)" "\<not> needs_reconfigure (manager ?w)" "user_wants_depth ?w"
    "reconfigure_calls (manager ?w) = 0"
    by (simp_all add: init_worker_def)
  from failures_never_request_reconfigure[OF i(2), of nearest_resize "replicate 4 failing_lifetime"]
    failing_lifetimes_run[OF i(1-3), of nearest_resize 4] i(4)
  show ?thesis by simp
qed

text \<open>A device error in a poll, absorbed by the handler.\<close>

theorem device_exceptions_absorbed_witness:
  "\<exists>w1 w2. pipeline_body nearest_resize failing_lifetime (init_worker 480 640 True True :: nat worker)
              = Done (Raised link_error w1)
          \<and> pipeline_loop nearest_resize failing_lifetime (init_worker 480 640 True True :: nat worker)
              = Done (Normal w2)
          \<and> pcd w2 = pcd w1
          \<and> run nearest_resize [failing_lifetime, failing_lifetime]
                (init_worker 480 640 True True :: nat worker)
              = run nearest_resize [failing_lifetime] w2"
proof -
  let ?w = "init_worker 480 640 True True :: nat worker"
  have i: "running (manager ?w)" "\<not> needs_reconfigure (manager ?w)" "user_wants_depth ?w"
    by (simp_all add: init_worker_def)
  from failing_lifetime_body[OF i, of nearest_resize] obtain w1 where
    w1: "pipeline_body nearest_resize failing_lifetime ?w = Done (Raised link_error w1)" by blast
  from device_exceptions_absorbed[where resize = nearest_resize and l = failing_lifetime
      and w = ?w and e = link_error and ?w1.0 = w1 and ls = "[failing_lifetime]"] w1 i(1)
  show ?thesis by blast
qed

lemma failure_counts_append:
  "failure_counts (xs @ ys) = failure_counts xs @ failure_counts ys"
  by (induction xs rule: failure_counts.induct) simp_all

lemma failure_counts_write_log:
  "failure_counts (logger (write_log m w)) = failure_counts (logger w) @ failure_counts [m]"
  by (simp add: failure_counts_append)

lemma counts_other_thread:
  "failure_counts (logger (other_thread a w)) = failure_counts (logger w)"
  by (cases a)
     (simp_all add: stop_def manager_stop_def get_pcd_mark_def manager_iteration_def Let_def
        failure_counts_append)

lemma counts_set_color_image:
  "failure_counts (logger (set_color_image arr t w)) = failure_counts (logger w)"
  by (simp add: set_color_image_def failure_counts_append)

lemma counts_set_depth_map:
  "failure_counts (logger (outcome_state (set_depth_map resize f t w))) = failure_counts (logger w)"
  by (simp add: set_depth_map_def Let_def failure_counts_append split: sum.splits)

lemma counts_set_pcd:
  "failure_counts (logger (set_pcd pts t w)) = failure_counts (logger w)"
  by (simp add: set_pcd_def Let_def failure_counts_append)

lemma counts_pipeline_body:
  "failure_counts (logger (progress_state (pipeline_body resize l w))) = failure_counts (logger w)"
proof -
  have "(\<lambda>x. failure_counts (logger x) = failure_counts (logger w))
          (progress_state (pipeline_body resize l w))"
    by (rule pipeline_body_preserves)
       (simp_all add: counts_other_thread counts_set_color_image counts_set_depth_map
          counts_set_pcd failure_counts_append)
  then show ?thesis .
qed

lemma counts_pipeline_loop:
  "failure_counts (logger (progress_state (pipeline_loop resize l w)))
     = failure_counts (logger w)
       @ (case pipeline_body resize l w of
            Done (Raised e w1) \<Rightarrow> [1] | Done (Normal w1) \<Rightarrow> [] | Pending w1 \<Rightarrow> [])"
  using counts_pipeline_body[of resize l w]
  by (auto simp add: pipeline_loop_unfolded failure_counts_append
      split: progress.splits outcome.splits)

lemma counts_run:
  "\<exists>k. failure_counts (logger (progress_state (run resize ls w)))
        = failure_counts (logger w) @ replicate k 1"
proof (induction ls arbitrary: w)
  case Nil
  show ?case by (rule exI[of _ 0]) (simp add: failure_counts_append)
next
  case (Cons l ls)
  show ?case
  proof (cases "running (manager w)")
    case False
    show ?thesis by (rule exI[of _ 0]) (simp add: False failure_counts_append)
  next
    case True
    note pl = counts_pipeline_loop[of resize l w]
    have one: "\<exists>j. failure_counts (logger (progress_state (pipeline_loop resize l w)))
        = failure_counts (logger w) @ replicate j 1"
    proof (cases "pipeline_body resize l w")
      case (Pending w1)
      with pl show ?thesis by (intro exI[of _ 0]) simp
    next
      case (Done out)
      show ?thesis
      proof (cases out)
        case (Normal w1)
        with pl Done show ?thesis by (intro exI[of _ 0]) simp
      next
        case (Raised e w1)
        with pl Done show ?thesis by (intro exI[of _ 1]) simp
      qed
    qed
    then obtain j where j: "failure_counts (logger (progress_state (pipeline_loop resize l w)))
        = failure_counts (logger w) @ replicate j 1" by blast
    show ?thesis
    proof (cases "pipeline_loop resize l w")
      case (Pending w1)
      with j True show ?thesis by auto
    next
      case (Done out)
      show ?thesis
      proof (cases out)
        case (Normal w1)
        from Cons.IH[of w1] obtain k where
          "failure_counts (logger (progress_state (run resize ls w1)))
             = failure_counts (logger w1) @ replicate k 1" by blast
        with j Done Normal True show ?thesis
          by (intro exI[of _ "j + k"]) (simp add: replicate_add)
      next
        case (Raised e w1)
        with pipeline_loop_not_raised[of resize l w e w1] Done show ?thesis by simp
      qed
    qed
  qed
qed

text \<open>
  C2 does not hold of the code. A call of \<open>_pipeline_loop\<close> whose body raises logs the
  failure count 1, and any other call logs none: every count the worker thread ever
  logs is 1, and four consecutive failing attempts are counted 1, 1, 1, 1.
\<close>

theorem failure_count_restarts_at_each_attempt:
  "failure_counts (logger (progress_state (pipeline_loop resize l w)))
     = failure_counts (logger w)
       @ (case pipeline_body resize l w of
            Done (Raised e w1) \<Rightarrow> [1] | Done (Normal w1) \<Rightarrow> [] | Pending w1 \<Rightarrow> [])
   \<and> (\<exists>k. failure_counts (logger (progress_state (run resize ls w)))
           = failure_counts (logger w) @ replicate k 1)"
  using counts_pipeline_loop[of resize l w] counts_run[of resize ls w] by blast

theorem failure_count_restarts_at_each_attempt_witness:
  "failure_counts (logger (progress_state
      (run nearest_resize (replicate 4 failing_lifetime) (init_worker 480 640 True True :: nat worker))))
   = [1, 1, 1, 1]"
proof -
  have step: "running (manager w) \<Longrightarrow> \<not> needs_reconfigure (manager w) \<Longrightarrow> user_wants_depth w \<Longrightarrow>
      failure_counts (logger (progress_state (run nearest_resize (replicate n failing_lifetime) w)))
       = failure_counts (logger w) @ replicate n 1" for n and w :: "nat worker"
  proof (induction n arbitrary: w)
    case 0
    then show ?case by simp
  next
    case (Suc n)
    from failing_lifetime_body[OF Suc.prems, of nearest_resize] obtain w1 where
      w1: "pipeline_body nearest_resize failing_lifetime w = Done (Raised link_error w1)" by blast
    from failing_lifetime_loop[OF Suc.prems, of nearest_resize] obtain w2 where
      w2: "pipeline_loop nearest_resize failing_lifetime w = Done (Normal w2)"
      "running (manager w2)" "\<not> needs_reconfigure (manager w2)" "user_wants_depth w2" by blast
    from failure_count_restarts_at_each_attempt[of nearest_resize failing_lifetime w] w1 w2(1)
    have "failure_counts (logger w2) = failure_counts (logger w) @ [1]" by simp
    with Suc.IH[OF w2(2-4)] w2(1) Suc.prems(1) show ?case
      by (simp add: replicate_app_Cons_same)
  qed
  have i: "running (manager (init_worker 480 640 True True :: nat worker))"
    "\<not> needs_reconfigure (manager (init_worker 480 640 True True :: nat worker))"
    "user_wants_depth (init_worker 480 640 True True :: nat worker)"
    "logger (init_worker 480 640 True True :: nat worker) = []"
    by (simp_all add: init_worker_def)
  from step[OF i(1-3), of 4] i(4) show ?thesis by (simp add: numeral_eq_Suc)
qed

subsection \<open>Sequences of publish steps\<close>

lemma same_control_publish: "same_control w (outcome_state (publish resize p w))"
  by (cases p)
     (simp_all add: same_control_set_color_image same_control_set_depth_map same_control_set_pcd)

lemma publish_all_snoc:
  "publish_all resize (ps @ [p]) w = outcome_state (publish resize p (publish_all resize ps w))"
  by (induction ps arbitrary: w) simp_all

lemma same_control_publish_all: "same_control w (publish_all resize ps w)"
proof (induction ps rule: rev_induct)
  case Nil
  then show ?case by simp
next
  case (snoc p ps)
  then show ?case
    using same_control_publish[of "publish_all resize ps w" resize p]
    by (auto simp add: publish_all_snoc intro: same_control_trans)
qed

lemma most_recent_snoc:
  "most_recent on_slot (ps @ [p]) = (if on_slot p then Some p else most_recent on_slot ps)"
  by (simp add: most_recent_def)

lemma publish_color_slot:
  "color_image (outcome_state (publish resize p w')) =
     (if is_color p then color_image (outcome_state (publish resize p w)) else color_image w')"
  by (cases p) (simp_all add: set_color_image_def set_pcd_def set_depth_map_def Let_def
      split: sum.splits)

lemma publish_pcd_slot:
  "pcd (outcome_state (publish resize p w')) =
     (if is_pcd p then pcd (outcome_state (publish resize p w)) else pcd w')"
  by (cases p) (simp_all add: set_color_image_def set_pcd_def set_depth_map_def Let_def
      split: sum.splits)

lemma publish_depth_slot:
  assumes "height w' = height w" and "width w' = width w"
  shows "depth_map (outcome_state (publish resize p w')) =
     (if completes_depth resize w p then depth_map (outcome_state (publish resize p w))
      else depth_map w')"
  using assms
  by (cases p) (auto simp add: set_color_image_def set_pcd_def set_depth_map_def Let_def
      split: sum.splits)

lemma color_after_publish_all:
  "color_image (publish_all resize ps w) =
     (case most_recent is_color ps of
        None \<Rightarrow> color_image w
      | Some p \<Rightarrow> color_image (outcome_state (publish resize p w)))"
proof (induction ps rule: rev_induct)
  case Nil
  then show ?case by (simp add: most_recent_def)
next
  case (snoc p ps)
  then show ?case
    using publish_color_slot[of resize p "publish_all resize ps w" w]
    by (simp add: publish_all_snoc most_recent_snoc)
qed

lemma pcd_after_publish_all:
  "pcd (publish_all resize ps w) =
     (case most_recent is_pcd ps of
        None \<Rightarrow> pcd w
      | Some p \<Rightarrow> pcd (outcome_state (publish resize p w)))"
proof (induction ps rule: rev_induct)
  case Nil
  then show ?case by (simp add: most_recent_def)
next
  case (snoc p ps)
  then show ?case
    using publish_pcd_slot[of resize p "publish_all resize ps w" w]
    by (simp add: publish_all_snoc most_recent_snoc)
qed

lemma depth_after_publish_all:
  "depth_map (publish_all resize ps w) =
     (case most_recent (completes_depth resize w) ps of
        None \<Rightarrow> depth_map w
      | Some p \<Rightarrow> depth_map (outcome_state (publish resize p w)))"
proof (induction ps rule: rev_induct)
  case Nil
  then show ?case by (simp add: most_recent_def)
next
  case (snoc p ps)
  have hw: "height (publish_all resize ps w) = height w" "width (publish_all resize ps w) = width w"
    using same_control_publish_all[of w resize ps] by (simp_all add: same_control_def)
  from snoc show ?case
    using publish_depth_slot[OF hw, of resize p]
    by (simp add: publish_all_snoc most_recent_snoc)
qed

lemma publish_color_whole:
  "color_image (outcome_state (publish resize (PublishColor arr t) w))
     = Some \<lparr>np_array = arr, captured_at = t\<rparr>"
  by (simp add: set_color_image_def)

lemma publish_pcd_whole:
  "\<exists>a. pcd (outcome_state (publish resize (PublishPcd pts t) w))
         = Some \<lparr>np_array = a, captured_at = t\<rparr> \<and> (a = pts \<or> a = subsample pts)"
  by (simp add: set_pcd_def Let_def)

lemma publish_depth_whole:
  "completes_depth resize w (PublishDepth f t) \<Longrightarrow>
     \<exists>a. depth_map (outcome_state (publish resize (PublishDepth f t) w))
         = Some \<lparr>np_array = a, captured_at = t\<rparr>"
  by (auto simp add: set_depth_map_def Let_def split: sum.splits if_splits)

text \<open>
  C7: after any sequence of publish steps, each slot holds what the most recently
  completed publish on that slot stores, whatever was published before it, or its
  initial content (empty, for a new worker) when no publish on it has completed; and
  what a publish stores is one frame, the array and the time of that same publish. A
  publish writes its slot by a single assignment, so a read, which is the slot of the
  state before or after a step, never sees parts of two publishes.
\<close>

theorem read_returns_latest_whole_frame:
  "color_image (publish_all resize ps w) =
     (case most_recent is_color ps of
        None \<Rightarrow> color_image w
      | Some p \<Rightarrow> color_image (outcome_state (publish resize p w)))
   \<and> depth_map (publish_all resize ps w) =
     (case most_recent (completes_depth resize w) ps of
        None \<Rightarrow> depth_map w
      | Some p \<Rightarrow> depth_map (outcome_state (publish resize p w)))
   \<and> pcd (publish_all resize ps w) =
     (case most_recent is_pcd ps of
        None \<Rightarrow> pcd w
      | Some p \<Rightarrow> pcd (outcome_state (publish resize p w)))
   \<and> color_image (outcome_state (publish resize (PublishColor arr t) w))
       = Some \<lparr>np_array = arr, captured_at = t\<rparr>
   \<and> (\<exists>a. pcd (outcome_state (publish resize (PublishPcd pts t) w))
           = Some \<lparr>np_array = a, captured_at = t\<rparr> \<and> (a = pts \<or> a = subsample pts))
   \<and> (completes_depth resize w (PublishDepth f t) \<longrightarrow>
        (\<exists>a. depth_map (outcome_state (publish resize (PublishDepth f t) w))
           = Some \<lparr>np_array = a, captured_at = t\<rparr>))"
  using color_after_publish_all[of resize ps w] depth_after_publish_all[of resize ps w]
    pcd_after_publish_all[of resize ps w] publish_color_whole[of resize arr t w]
    publish_pcd_whole[of resize pts t w] publish_depth_whole[of resize w f t]
  by blast

theorem read_returns_latest_whole_frame_witness:
  "color_image (publish_all nearest_resize
      [PublishColor \<lparr>itemsize = 1, items = [[[1, 2, 3 :: nat]]]\<rparr> 10,
       PublishDepth [[7, 8]] 11,
       PublishColor \<lparr>itemsize = 1, items = [[[4, 5, 6]]]\<rparr> 12,
       PublishDepth [[9, 9]] 13]
      (init_worker 1 2 True True))
     = Some \<lparr>np_array = \<lparr>itemsize = 1, items = [[[4, 5, 6]]]\<rparr>, captured_at = 12\<rparr>
   \<and> depth_map (publish_all nearest_resize
      [PublishColor \<lparr>itemsize = 1, items = [[[1, 2, 3 :: nat]]]\<rparr> 10,
       PublishDepth [[7, 8]] 11,
       PublishColor \<lparr>itemsize = 1, items = [[[4, 5, 6]]]\<rparr> 12,
       PublishDepth [[9, 9]] 13]
      (init_worker 1 2 True True))
     = Some \<lparr>np_array = [[9, 9]], captured_at = 13\<rparr>
   \<and> pcd (publish_all nearest_resize
      [PublishColor \<lparr>itemsize = 1, items = [[[1, 2, 3 :: nat]]]\<rparr> 10,
       PublishDepth [[7, 8]] 11,
       PublishColor \<lparr>itemsize = 1, items = [[[4, 5, 6]]]\<rparr> 12,
       PublishDepth [[9, 9]] 13]
      (init_worker 1 2 True True))
     = None"
proof -
  let ?w = "init_worker 1 2 True True :: nat worker"
  let ?ps = "[PublishColor \<lparr>itemsize = 1, items = [[[1, 2, 3 :: nat]]]\<rparr> 10,
       PublishDepth [[7, 8]] 11,
       PublishColor \<lparr>itemsize = 1, items = [[[4, 5, 6]]]\<rparr> 12,
       PublishDepth [[9, 9]] 13]"
  have d: "set_depth_map nearest_resize [[9, 9 :: nat]] 13 ?w
      = Normal ((write_log SettingCurrentDepthMap ?w)
                  \<lparr>depth_map := Some \<lparr>np_array = [[9, 9]], captured_at = 13\<rparr>\<rparr>)"
    by (simp add: set_depth_map_def shape2_def init_worker_def)
  have p: "pcd ?w = None" by (simp add: init_worker_def)
  have c: "completes_depth nearest_resize ?w (PublishDepth [[9, 9]] 13)"
    using d by simp
  from read_returns_latest_whole_frame[where resize = nearest_resize and ps = ?ps and w = ?w
      and arr = "\<lparr>itemsize = 1, items = [[[4, 5, 6]]]\<rparr>" and t = 13 and f = "[[9, 9]]"
      and pts = "\<lparr>itemsize = 1, items = [[[4, 5, 6]]]\<rparr>"] d p c
  show ?thesis
    by (simp add: most_recent_def set_color_image_def)
qed

subsection \<open>A change of demand while the capture cycle runs\<close>

lemma capture_loop_left:
  "\<not> running (manager w) \<or> previous \<noteq> get_pcd_was_invoked w \<Longrightarrow>
   capture_loop resize oak previous rs w = Done (Normal w)"
  by (cases rs) auto

lemma capture_loop_append:
  "capture_loop resize oak previous (qs @ rs) w =
     (case capture_loop resize oak previous qs w of
        Pending w1 \<Rightarrow> capture_loop resize oak previous rs w1
      | Done out \<Rightarrow> Done out)"
proof (induction qs arbitrary: w)
  case Nil
  show ?case
  proof (cases "\<not> running (manager w) \<or> previous \<noteq> get_pcd_was_invoked w")
    case True
    then show ?thesis using capture_loop_left[OF True, of resize oak rs] by auto
  next
    case False
    then show ?thesis by simp
  qed
next
  case (Cons q qs)
  show ?case
  proof (cases "round_body resize oak q w")
    case (Normal w1)
    with Cons show ?thesis by auto
  next
    case (Raised e w1)
    then show ?thesis by simp
  qed
qed

lemma capture_loop_pending:
  "capture_loop resize oak previous qs w = Pending w1 \<Longrightarrow>
   running (manager w1) \<and> previous = get_pcd_was_invoked w1"
proof (induction qs arbitrary: w)
  case Nil
  then show ?case by (auto split: if_splits)
next
  case (Cons q qs)
  then show ?case by (auto split: if_splits outcome.splits)
qed

lemma other_thread_slots:
  "color_image (other_thread a w) = color_image w \<and> depth_map (other_thread a w) = depth_map w
   \<and> pcd (other_thread a w) = pcd w
   \<and> user_wants_color (other_thread a w) = user_wants_color w
   \<and> user_wants_depth (other_thread a w) = user_wants_depth w"
  by (cases a)
     (simp_all add: stop_def manager_stop_def get_pcd_mark_def manager_iteration_def Let_def)

lemma other_threads_slots:
  "color_image (other_threads as w) = color_image w \<and> depth_map (other_threads as w) = depth_map w
   \<and> pcd (other_threads as w) = pcd w
   \<and> user_wants_color (other_threads as w) = user_wants_color w
   \<and> user_wants_depth (other_threads as w) = user_wants_depth w"
  by (induction as arbitrary: w) (simp_all add: other_thread_slots)

lemma set_depth_map_pcd: "pcd (outcome_state (set_depth_map resize f t w)) = pcd w"
  by (simp add: set_depth_map_def Let_def split: sum.splits)

lemma poll_no_pc:
  "\<not> pc_component oak \<Longrightarrow> pcd (outcome_state (poll resize oak evs w)) = pcd w"
proof (induction resize oak evs w rule: poll.induct)
  case (3 resize oak frame t evs w)
  then show ?case
    using set_depth_map_pcd[of resize frame t w]
    by (cases "set_depth_map resize frame t w") auto
qed simp_all

lemma round_body_no_pc:
  assumes "\<not> pc_component oak"
  shows "pcd (outcome_state (round_body resize oak r w)) = pcd w"
proof -
  have c: "pcd (outcome_state (handle_color_output out x)) = pcd x" for out and x :: "'a worker"
    by (simp add: handle_color_output_def set_color_image_def split: sum.splits option.splits)
  show ?thesis
  proof (cases "handle_color_output (color_out r) (other_threads (acts r) w)")
    case (Normal w1)
    with c[of "color_out r" "other_threads (acts r) w"] other_threads_slots[of "acts r" w]
      poll_no_pc[OF assms, of resize "poll_out r" w1]
    show ?thesis by (simp add: round_body_def handle_depth_and_pcd_output_def)
  next
    case (Raised e w1)
    with c[of "color_out r" "other_threads (acts r) w"] other_threads_slots[of "acts r" w]
    show ?thesis by (simp add: round_body_def)
  qed
qed

lemma capture_loop_no_pc:
  assumes "\<not> pc_component oak"
  shows "pcd (progress_state (capture_loop resize oak previous rs w)) = pcd w"
proof (induction rs arbitrary: w)
  case Nil
  then show ?case by simp
next
  case (Cons r rs)
  show ?case
    using round_body_no_pc[OF assms, of resize r w] Cons.IH
    by (cases "round_body resize oak r w") auto
qed

lemma round_body_config:
  "user_wants_color (outcome_state (round_body resize oak r w)) = user_wants_color w
   \<and> user_wants_depth (outcome_state (round_body resize oak r w)) = user_wants_depth w"
  using same_control_round_body[of r w resize oak] other_threads_slots[of "acts r" w]
  by (simp add: same_control_def)

lemma capture_loop_config:
  "user_wants_color (progress_state (capture_loop resize oak previous rs w)) = user_wants_color w
   \<and> user_wants_depth (progress_state (capture_loop resize oak previous rs w)) = user_wants_depth w"
proof (induction rs arbitrary: w)
  case Nil
  then show ?case by simp
next
  case (Cons r rs)
  show ?case
    using round_body_config[of resize oak r w] Cons.IH
    by (cases "round_body resize oak r w") auto
qed

lemma build_pipeline_result:
  "fst (build_pipeline x) =
      \<lparr>color_component = user_wants_color x, stereo_component = user_wants_depth x,
       pc_component = (user_wants_depth x \<and> get_pcd_was_invoked x)\<rparr>
   \<and> fst (snd (build_pipeline x)) = get_pcd_was_invoked x
   \<and> color_image (snd (snd (build_pipeline x))) = color_image x
   \<and> depth_map (snd (snd (build_pipeline x))) = depth_map x
   \<and> pcd (snd (snd (build_pipeline x))) = pcd x
   \<and> user_wants_color (snd (snd (build_pipeline x))) = user_wants_color x
   \<and> user_wants_depth (snd (snd (build_pipeline x))) = user_wants_depth x
   \<and> manager (snd (snd (build_pipeline x))) = manager x"
  by (simp add: build_pipeline_def configure_color_def configure_stereo_def configure_pc_def)

text \<open>Colour and depth publishing does not depend on the point-cloud component.\<close>

lemma same_frames_refl [simp]: "same_frames a a"
  by (simp add: same_frames_def)

lemma set_depth_map_rel:
  assumes "same_frames a b"
  shows "same_frames (outcome_state (set_depth_map resize f t a))
           (outcome_state (set_depth_map resize f t b))
       \<and> completed (set_depth_map resize f t a) = completed (set_depth_map resize f t b)"
  using assms
  by (auto simp add: same_frames_def set_depth_map_def Let_def split: sum.splits)

lemma set_pcd_rel:
  "same_frames a b \<Longrightarrow>
   same_frames (if pa then set_pcd pts t a else a) (if pb then set_pcd pts t b else b)"
  by (simp add: same_frames_def set_pcd_def Let_def)

lemma poll_rel:
  assumes st: "stereo_component oa = stereo_component ob"
  shows "same_frames a b \<Longrightarrow>
     same_frames (outcome_state (poll resize oa evs a)) (outcome_state (poll resize ob evs b))
     \<and> completed (poll resize oa evs a) = completed (poll resize ob evs b)"
proof (induction evs arbitrary: a b)
  case Nil
  then show ?case by simp
next
  case (Cons ev evs)
  show ?case
  proof (cases ev)
    case (Inl e)
    with Cons.prems show ?thesis by simp
  next
    case (Inr pk)
    obtain k t where pk: "pk = (k, t)" by (cases pk)
    show ?thesis
    proof (cases k)
      case (DisparityDepthPacket frame)
      note rel = set_depth_map_rel[OF Cons.prems, of resize frame t]
      show ?thesis
      proof (cases "stereo_component oa")
        case False
        with st Cons Inr pk DisparityDepthPacket show ?thesis by simp
      next
        case True
        show ?thesis
        proof (cases "set_depth_map resize frame t a")
          case (Normal a1)
          with rel obtain b1 where b1: "set_depth_map resize frame t b = Normal b1"
            by (cases "set_depth_map resize frame t b") auto
          with rel Normal have "same_frames a1 b1" by simp
          from Cons.IH[OF this] Normal b1 True st Inr pk DisparityDepthPacket
          show ?thesis by simp
        next
          case (Raised e a1)
          with rel obtain e' b1 where b1: "set_depth_map resize frame t b = Raised e' b1"
            by (cases "set_depth_map resize frame t b") auto
          with rel Raised True st Inr pk DisparityDepthPacket show ?thesis by simp
        qed
      qed
    next
      case (PointcloudPacket pts)
      from Cons.IH[OF set_pcd_rel[OF Cons.prems, of "pc_component oa" pts t "pc_component ob"]]
        Inr pk PointcloudPacket
      show ?thesis by (cases "pc_component oa"; cases "pc_component ob") simp_all
    qed
  qed
qed

lemma round_body_rel:
  assumes st: "stereo_component oa = stereo_component ob"
  shows "same_frames (outcome_state (round_body resize oa r x))
           (outcome_state (round_body resize ob r x))
       \<and> completed (round_body resize oa r x) = completed (round_body resize ob r x)"
proof (cases "handle_color_output (color_out r) (other_threads (acts r) x)")
  case (Normal x1)
  with poll_rel[OF st, of x1 x1 resize "poll_out r"] show ?thesis
    by (simp add: round_body_def handle_depth_and_pcd_output_def)
next
  case (Raised e x1)
  then show ?thesis by (simp add: round_body_def)
qed

lemma round_body_dims:
  "height (outcome_state (round_body resize oak r w)) = height w
   \<and> width (outcome_state (round_body resize oak r w)) = width w"
  using same_control_round_body[of r w resize oak] other_threads_depth[of "acts r" w]
  by (simp add: same_control_def)

lemma capture_loop_dims:
  "height (progress_state (capture_loop resize oak previous rs w)) = height w
   \<and> width (progress_state (capture_loop resize oak previous rs w)) = width w"
proof (induction rs arbitrary: w)
  case Nil
  then show ?case by simp
next
  case (Cons r rs)
  show ?case
    using round_body_dims[of resize oak r w] Cons.IH
    by (cases "round_body resize oak r w") auto
qed

lemma poll_color_image: "color_image (outcome_state (poll resize oak evs w)) = color_image w"
proof -
  have "(\<lambda>y. color_image y = color_image w) (outcome_state (poll resize oak evs w))"
    by (rule poll_preserves)
       (simp_all add: set_depth_map_def set_pcd_def Let_def split: sum.splits)
  then show ?thesis .
qed

lemma round_body_publishes_color:
  assumes "user_wants_color x" and "color_out r = Inr (Some (arr, t))"
  shows "color_image (outcome_state (round_body resize oak r x))
           = Some \<lparr>np_array = arr, captured_at = t\<rparr>"
  using assms other_threads_slots[of "acts r" x]
  by (simp add: round_body_def handle_color_output_def handle_depth_and_pcd_output_def
      poll_color_image set_color_image_def)

lemma pcd_set_color_image: "pcd (set_color_image arr t w) = pcd w"
  by (simp add: set_color_image_def)

lemma handle_color_normal:
  assumes "color_out r = Inr c"
  shows "\<exists>x1. handle_color_output (color_out r) x = Normal x1 \<and> same_control x x1
            \<and> pcd x1 = pcd x"
  using assms
  by (cases c)
     (auto simp add: handle_color_output_def same_control_set_color_image pcd_set_color_image)

lemma set_depth_map_dims:
  assumes "height x = height w" and "width x = width w"
    and "set_depth_map resize f t w = Normal y"
  shows "\<exists>y'. set_depth_map resize f t x = Normal y' \<and> depth_map y' = depth_map y"
  using assms by (auto simp add: set_depth_map_def Let_def split: sum.splits if_splits)

lemma round_body_publishes_depth:
  assumes d: "user_wants_depth x" and st: "stereo_component oak"
    and c: "color_out r = Inr c"
    and p: "poll_out r = [Inr (DisparityDepthPacket f, t')]"
    and hw: "height x = height w" "width x = width w"
    and s: "set_depth_map resize f t' w = Normal y"
  shows "depth_map (outcome_state (round_body resize oak r x)) = depth_map y"
proof -
  let ?x0 = "other_threads (acts r) x"
  from handle_color_normal[OF c, of ?x0] obtain x1 where
    x1: "handle_color_output (color_out r) ?x0 = Normal x1" "same_control ?x0 x1" by blast
  have k: "user_wants_depth x1" "height x1 = height w" "width x1 = width w"
    using x1(2) other_threads_slots[of "acts r" x] other_threads_depth[of "acts r" x] d hw
    by (simp_all add: same_control_def)
  from set_depth_map_dims[OF k(2,3) s] obtain y' where
    "set_depth_map resize f t' x1 = Normal y'" "depth_map y' = depth_map y" by blast
  with x1(1) k(1) st p show ?thesis
    by (simp add: round_body_def handle_depth_and_pcd_output_def)
qed

lemma round_body_publishes_pcd:
  assumes d: "user_wants_depth x" and pc: "pc_component oak"
    and c: "color_out r = Inr c"
    and p: "poll_out r = [Inr (PointcloudPacket pts, t)]"
  shows "pcd (outcome_state (round_body resize oak r x))
           = Some \<lparr>np_array = (if nbytes pts > MAX_GRPC_MESSAGE_BYTE_COUNT
                               then subsample pts else pts),
                  captured_at = t\<rparr>"
proof -
  let ?x0 = "other_threads (acts r) x"
  from handle_color_normal[OF c, of ?x0] obtain x1 where
    x1: "handle_color_output (color_out r) ?x0 = Normal x1" "same_control ?x0 x1" by blast
  have k: "user_wants_depth x1"
    using x1(2) other_threads_slots[of "acts r" x] d by (simp add: same_control_def)
  with x1(1) pc p show ?thesis
    by (simp add: round_body_def handle_depth_and_pcd_output_def set_pcd_slot)
qed

lemma pipeline_body_config:
  "user_wants_depth (progress_state (pipeline_body resize l w)) = user_wants_depth w"
proof -
  have "(\<lambda>y. user_wants_depth y = user_wants_depth w) (progress_state (pipeline_body resize l w))"
  proof (rule pipeline_body_preserves)
    fix f t and y :: "'a worker"
    assume "user_wants_depth y = user_wants_depth w"
    then show "user_wants_depth (outcome_state (set_depth_map resize f t y)) = user_wants_depth w"
      using same_control_set_depth_map[of y resize f t] by (simp add: same_control_def)
  qed (simp_all add: other_thread_slots set_color_image_def set_pcd_def Let_def)
  then show ?thesis .
qed

lemma pipeline_body_no_depth:
  assumes "\<not> user_wants_depth w"
  shows "pcd (progress_state (pipeline_body resize l w)) = pcd w"
proof -
  let ?wb = "write_log InitializingPipeline (other_threads (build_acts l) w)"
  obtain oak prev w3 where b: "build_pipeline ?wb = (oak, prev, w3)" by (cases "build_pipeline ?wb")
  have s: "pcd ?wb = pcd w" "\<not> user_wants_depth ?wb"
    using other_threads_slots[of "build_acts l" w] assms by simp_all
  have o: "\<not> pc_component oak" and p3: "pcd w3 = pcd w"
    using build_pipeline_result[of ?wb] b s by auto
  show ?thesis
    using s p3 b capture_loop_no_pc[OF o, of resize prev "rounds l" w3]
    by (simp add: pipeline_body_def Let_def split: option.splits)
qed

lemma pipeline_loop_no_depth:
  assumes "\<not> user_wants_depth w"
  shows "pcd (progress_state (pipeline_loop resize l w)) = pcd w
       \<and> \<not> user_wants_depth (progress_state (pipeline_loop resize l w))"
  using pipeline_body_no_depth[OF assms, of resize l] pipeline_body_config[of resize l w] assms
  by (auto simp add: pipeline_loop_unfolded split: progress.splits outcome.splits)

lemma run_no_depth:
  "\<not> user_wants_depth w \<Longrightarrow> pcd (progress_state (run resize ls w)) = pcd w"
proof (induction ls arbitrary: w)
  case Nil
  then show ?case by simp
next
  case (Cons l ls)
  note pl = pipeline_loop_no_depth[OF Cons.prems, of resize l]
  show ?case
  proof (cases "running (manager w)")
    case False
    then show ?thesis by simp
  next
    case True
    show ?thesis
    proof (cases "pipeline_loop resize l w")
      case (Pending w1)
      with pl True show ?thesis by simp
    next
      case (Done out)
      show ?thesis
      proof (cases out)
        case (Normal w1)
        with pl Done have "\<not> user_wants_depth w1" "pcd w1 = pcd w" by simp_all
        with Cons.IH[of w1] Done Normal True show ?thesis by simp
      next
        case (Raised e w1)
        with pl Done True show ?thesis by simp
      qed
    qed
  qed
qed

lemma rebuilt_result:
  assumes "get_pcd_was_invoked w"
  shows "fst (rebuilt as w) =
      \<lparr>color_component = user_wants_color w, stereo_component = user_wants_depth w,
       pc_component = user_wants_depth w\<rparr>
   \<and> fst (snd (rebuilt as w)) = True
   \<and> color_image (snd (snd (rebuilt as w))) = color_image w
   \<and> depth_map (snd (snd (rebuilt as w))) = depth_map w
   \<and> user_wants_color (snd (snd (rebuilt as w))) = user_wants_color w
   \<and> user_wants_depth (snd (snd (rebuilt as w))) = user_wants_depth w
   \<and> height (snd (snd (rebuilt as w))) = height w
   \<and> width (snd (snd (rebuilt as w))) = width w
   \<and> get_pcd_was_invoked (snd (snd (rebuilt as w)))
   \<and> manager (snd (snd (rebuilt as w)))
       = manager (other_threads as (write_log ExitingPipelineLoop w))"
proof -
  let ?e = "write_log ExitingPipelineLoop w"
  let ?wn = "write_log InitializingPipeline (other_threads as ?e)"
  have f: "get_pcd_was_invoked (other_threads as ?e)"
    using assms by (intro other_threads_flag) simp
  have g: "get_pcd_was_invoked (snd (snd (build_pipeline ?wn)))"
    using f by (simp add: build_pipeline_def configure_color_def configure_stereo_def
        configure_pc_def)
  show ?thesis
    using build_pipeline_result[of ?wn] build_pipeline_state[of ?wn]
      other_threads_slots[of as ?e] other_threads_depth[of as ?e] f g
    by (simp add: rebuilt_def)
qed

lemma pipeline_body_rebuilt:
  assumes fl: "get_pcd_was_invoked w"
    and l: "open_raises l = None" "start_raises l = None" "build_acts l = as"
      "rounds l = r # rest"
    and live: "running (manager (other_threads as (write_log ExitingPipelineLoop w)))"
  shows "pipeline_body resize l (write_log ExitingPipelineLoop w) =
     (case round_body resize (fst (rebuilt as w)) r (snd (snd (rebuilt as w))) of
        Raised e y \<Rightarrow> Done (Raised e y)
      | Normal y \<Rightarrow> capture_loop resize (fst (rebuilt as w)) True rest y)"
proof -
  obtain oak prev x where b: "rebuilt as w = (oak, prev, x)" by (cases "rebuilt as w")
  from rebuilt_result[OF fl, of as] b live have k: "prev = True" "get_pcd_was_invoked x"
    "running (manager x)" by simp_all
  from b have "build_pipeline (write_log InitializingPipeline
      (other_threads (build_acts l) (write_log ExitingPipelineLoop w))) = (oak, prev, x)"
    by (simp add: rebuilt_def l)
  then show ?thesis using l k b by (simp add: pipeline_body_def split: outcome.splits)
qed

text \<open>
  C4, as the code has it. A pipeline was built while the demand flag was false, the
  capture cycle is running on it, and during a round \<open>r\<close> that completes a consumer
  enters \<open>get_pcd\<close>, the worker not being stopped. Then:
  \<^item> the loop is left at its next test without a failure being counted, and \<open>run\<close>
    goes on to the next call of \<open>_pipeline_loop\<close>;
  \<^item> nothing was published to the point-cloud slot on the old pipeline;
  \<^item> the pipeline built next has the colour and stereo components of the configuration,
    and the point-cloud component exactly when depth is enabled; the colour and depth
    slots are what the last round left;
  \<^item> when the device opens and the worker is still running, the capture cycle runs on
    the rebuilt pipeline: a round that delivers a colour frame publishes it when colour
    is enabled, a round that delivers a depth packet or a point packet publishes it
    when depth is enabled, and every round leaves the colour and depth slots, and
    completes or raises, exactly as it would on the old pipeline;
  \<^item> with depth disabled, no script ever publishes to the point-cloud slot.
\<close>

theorem demand_flip_rebuilds_pipeline:
  assumes live0: "running (manager w0)"
    and l1: "open_raises l1 = None" "start_raises l1 = None" "rounds l1 = qs @ r # rest"
    and built: "build_pipeline (write_log InitializingPipeline (other_threads (build_acts l1) w0))
                  = (oak, False, w)"
    and pend: "capture_loop resize oak False qs w = Pending w1"
    and round: "round_body resize oak r w1 = Normal w2"
    and flip: "get_pcd_was_invoked w2"
    and live: "running (manager w2)"
  shows "run resize (l1 # ls) w0 = run resize ls (write_log ExitingPipelineLoop w2)
       \<and> pcd w2 = pcd w0
       \<and> fst (rebuilt as w2)
           = \<lparr>color_component = user_wants_color w0, stereo_component = user_wants_depth w0,
              pc_component = user_wants_depth w0\<rparr>
       \<and> color_image (snd (snd (rebuilt as w2))) = color_image w2
       \<and> depth_map (snd (snd (rebuilt as w2))) = depth_map w2
       \<and> (open_raises l2 = None \<and> start_raises l2 = None \<and> build_acts l2 = as
            \<and> rounds l2 = r2 # rest2
            \<and> running (manager (other_threads as (write_log ExitingPipelineLoop w2))) \<longrightarrow>
          pipeline_body resize l2 (write_log ExitingPipelineLoop w2) =
            (case round_body resize (fst (rebuilt as w2)) r2 (snd (snd (rebuilt as w2))) of
               Raised e y \<Rightarrow> Done (Raised e y)
             | Normal y \<Rightarrow> capture_loop resize (fst (rebuilt as w2)) True rest2 y))
       \<and> (user_wants_color w0 \<and> color_out r2 = Inr (Some (arr, t)) \<longrightarrow>
          color_image (outcome_state
              (round_body resize (fst (rebuilt as w2)) r2 (snd (snd (rebuilt as w2)))))
            = Some \<lparr>np_array = arr, captured_at = t\<rparr>)
       \<and> (user_wants_depth w0 \<and> color_out r2 = Inr c
            \<and> poll_out r2 = [Inr (DisparityDepthPacket f, t)]
            \<and> set_depth_map resize f t w0 = Normal y0 \<longrightarrow>
          depth_map (outcome_state
              (round_body resize (fst (rebuilt as w2)) r2 (snd (snd (rebuilt as w2)))))
            = depth_map y0)
       \<and> (user_wants_depth w0 \<and> color_out r2 = Inr c
            \<and> poll_out r2 = [Inr (PointcloudPacket pts, t)] \<longrightarrow>
          pcd (outcome_state
              (round_body resize (fst (rebuilt as w2)) r2 (snd (snd (rebuilt as w2)))))
            = Some \<lparr>np_array = (if nbytes pts > MAX_GRPC_MESSAGE_BYTE_COUNT
                                then subsample pts else pts),
                   captured_at = t\<rparr>)
       \<and> same_frames
            (outcome_state (round_body resize oak r2 (snd (snd (rebuilt as w2)))))
            (outcome_state
              (round_body resize (fst (rebuilt as w2)) r2 (snd (snd (rebuilt as w2)))))
       \<and> completed (round_body resize oak r2 (snd (snd (rebuilt as w2))))
           = completed (round_body resize (fst (rebuilt as w2)) r2 (snd (snd (rebuilt as w2))))
       \<and> (\<not> user_wants_depth w0 \<longrightarrow> pcd (progress_state (run resize ls' w0)) = pcd w0)"
proof -
  let ?wb = "write_log InitializingPipeline (other_threads (build_acts l1) w0)"
  let ?oak = "fst (rebuilt as w2)"
  let ?x = "snd (snd (rebuilt as w2))"
  note b = build_pipeline_result[of ?wb] build_pipeline_state[of ?wb]
  note ot = other_threads_slots[of "build_acts l1" w0] other_threads_depth[of "build_acts l1" w0]
  have oak: "\<not> pc_component oak" "stereo_component oak = user_wants_depth w0"
    and cfg: "user_wants_color w = user_wants_color w0" "user_wants_depth w = user_wants_depth w0"
      "height w = height w0" "width w = width w0"
    and p0: "pcd w = pcd w0"
    using b built ot by auto
  have p1: "pcd w1 = pcd w" and c1: "user_wants_color w1 = user_wants_color w"
    "user_wants_depth w1 = user_wants_depth w" "height w1 = height w" "width w1 = width w"
    using capture_loop_no_pc[OF oak(1), of resize False qs w]
      capture_loop_config[of resize oak False qs w] capture_loop_dims[of resize oak False qs w]
      pend by simp_all
  have p2: "pcd w2 = pcd w1" and c2: "user_wants_color w2 = user_wants_color w1"
    "user_wants_depth w2 = user_wants_depth w1" "height w2 = height w1" "width w2 = width w1"
    using round_body_no_pc[OF oak(1), of resize r w1] round_body_config[of resize oak r w1]
      round_body_dims[of resize oak r w1] round
    by simp_all
  have head: "running (manager w1)" "\<not> get_pcd_was_invoked w1"
    using capture_loop_pending[OF pend] by simp_all
  have "capture_loop resize oak False (r # rest) w1 = capture_loop resize oak False rest w2"
    using head round by simp
  also have "\<dots> = Done (Normal w2)"
    using capture_loop_left[of w2 False resize oak rest] flip by simp
  finally have "capture_loop resize oak False (qs @ r # rest) w = Done (Normal w2)"
    using pend by (simp add: capture_loop_append)
  then have "pipeline_body resize l1 w0 = Done (Normal w2)"
    using l1 built by (simp add: pipeline_body_def)
  then have "pipeline_loop resize l1 w0 = Done (Normal (write_log ExitingPipelineLoop w2))"
    by (simp add: pipeline_loop_unfolded)
  then have g1: "run resize (l1 # ls) w0 = run resize ls (write_log ExitingPipelineLoop w2)"
    using live0 by simp
  have g2: "pcd w2 = pcd w0" using p0 p1 p2 by simp
  note rb = rebuilt_result[OF flip, of as]
  have k: "user_wants_color w2 = user_wants_color w0" "user_wants_depth w2 = user_wants_depth w0"
    "height w2 = height w0" "width w2 = width w0"
    using cfg c1 c2 by simp_all
  have g3: "?oak = \<lparr>color_component = user_wants_color w0,
      stereo_component = user_wants_depth w0, pc_component = user_wants_depth w0\<rparr>"
    using rb k by simp
  have g4: "color_image ?x = color_image w2" "depth_map ?x = depth_map w2" using rb by simp_all
  have x: "user_wants_color ?x = user_wants_color w0" "user_wants_depth ?x = user_wants_depth w0"
    "height ?x = height w0" "width ?x = width w0"
    using rb k by simp_all
  have st: "stereo_component oak = stereo_component ?oak" using oak(2) g3 by simp
  have g5: "open_raises l2 = None \<and> start_raises l2 = None \<and> build_acts l2 = as
        \<and> rounds l2 = r2 # rest2
        \<and> running (manager (other_threads as (write_log ExitingPipelineLoop w2))) \<longrightarrow>
      pipeline_body resize l2 (write_log ExitingPipelineLoop w2) =
        (case round_body resize ?oak r2 ?x of
           Raised e y \<Rightarrow> Done (Raised e y)
         | Normal y \<Rightarrow> capture_loop resize ?oak True rest2 y)"
    using pipeline_body_rebuilt[OF flip, of l2 as r2 rest2 resize] by blast
  have g6: "user_wants_color w0 \<and> color_out r2 = Inr (Some (arr, t)) \<longrightarrow>
      color_image (outcome_state (round_body resize ?oak r2 ?x))
        = Some \<lparr>np_array = arr, captured_at = t\<rparr>"
    using round_body_publishes_color[of ?x r2 arr t resize ?oak] x by blast
  have g7: "user_wants_depth w0 \<and> color_out r2 = Inr c
        \<and> poll_out r2 = [Inr (DisparityDepthPacket f, t)]
        \<and> set_depth_map resize f t w0 = Normal y0 \<longrightarrow>
      depth_map (outcome_state (round_body resize ?oak r2 ?x)) = depth_map y0"
  proof (intro impI, elim conjE)
    assume a: "user_wants_depth w0" "color_out r2 = Inr c"
      "poll_out r2 = [Inr (DisparityDepthPacket f, t)]" "set_depth_map resize f t w0 = Normal y0"
    have d: "user_wants_depth ?x" "stereo_component ?oak" using x a(1) g3 by simp_all
    from round_body_publishes_depth[OF d a(2) a(3) x(3) x(4) a(4)]
    show "depth_map (outcome_state (round_body resize ?oak r2 ?x)) = depth_map y0" .
  qed
  have g8: "user_wants_depth w0 \<and> color_out r2 = Inr c
        \<and> poll_out r2 = [Inr (PointcloudPacket pts, t)] \<longrightarrow>
      pcd (outcome_state (round_body resize ?oak r2 ?x))
        = Some \<lparr>np_array = (if nbytes pts > MAX_GRPC_MESSAGE_BYTE_COUNT
                            then subsample pts else pts),
               captured_at = t\<rparr>"
  proof (intro impI, elim conjE)
    assume a: "user_wants_depth w0" "color_out r2 = Inr c"
      "poll_out r2 = [Inr (PointcloudPacket pts, t)]"
    have d: "user_wants_depth ?x" "pc_component ?oak" using x a(1) g3 by simp_all
    from round_body_publishes_pcd[OF d a(2) a(3)]
    show "pcd (outcome_state (round_body resize ?oak r2 ?x))
        = Some \<lparr>np_array = (if nbytes pts > MAX_GRPC_MESSAGE_BYTE_COUNT
                            then subsample pts else pts),
               captured_at = t\<rparr>" .
  qed
  note g9 = round_body_rel[OF st, of resize r2 ?x]
  have g10: "\<not> user_wants_depth w0 \<longrightarrow> pcd (progress_state (run resize ls' w0)) = pcd w0"
    using run_no_depth[of w0 resize ls'] by blast
  show ?thesis
    using g1 g2 g3 g4 g5 g6 g7 g8 g9 g10 by blast
qed

lemmas script_defs = flip_round_def points_round_def flip_lifetime_def points_lifetime_def

lemmas step_defs = pipeline_loop_unfolded pipeline_body_def build_pipeline_def
  configure_color_def configure_stereo_def configure_pc_def Let_def round_body_def
  handle_color_output_def handle_depth_and_pcd_output_def get_pcd_mark_def

text \<open>
  C4 as stated fails when depth is disabled: the demand flag flips during the first
  round, the worker thread leaves the capture cycle and builds a second pipeline, and
  that pipeline has no point-cloud component either; the point packet of the device
  reaches no callback and the slot stays empty.
\<close>

theorem demand_flip_depth_disabled_counterexample:
  "(case run nearest_resize [flip_lifetime, points_lifetime] (init_worker 480 640 True False) of
      Pending w \<Rightarrow>
        get_pcd_was_invoked w \<and> pcd w = None
        \<and> logger w = [InitializingPipeline, CreatingColorNode, ExitingPipelineLoop,
                       InitializingPipeline, CreatingColorNode]
    | Done out \<Rightarrow> False)"
  by (simp add: script_defs step_defs init_worker_def write_log_def)

theorem demand_flip_rebuilds_pipeline_witness:
  "run nearest_resize [flip_lifetime, points_lifetime] (init_worker 1 2 True True)
     = run nearest_resize [points_lifetime] (write_log ExitingPipelineLoop flip_state)
   \<and> pcd flip_state = None
   \<and> pc_component (fst (rebuilt [] flip_state))
   \<and> pipeline_body nearest_resize points_lifetime (write_log ExitingPipelineLoop flip_state)
       = (case round_body nearest_resize (fst (rebuilt [] flip_state)) points_round
                 (snd (snd (rebuilt [] flip_state))) of
            Raised e y \<Rightarrow> Done (Raised e y)
          | Normal y \<Rightarrow> capture_loop nearest_resize (fst (rebuilt [] flip_state)) True [] y)
   \<and> color_image (outcome_state (round_body nearest_resize (fst (rebuilt [] flip_state))
         color_round (snd (snd (rebuilt [] flip_state)))))
       = Some \<lparr>np_array = \<lparr>itemsize = 1, items = [[[4, 5, 6]]]\<rparr>, captured_at = 30\<rparr>
   \<and> depth_map (outcome_state (round_body nearest_resize (fst (rebuilt [] flip_state))
         depth_round (snd (snd (rebuilt [] flip_state)))))
       = Some \<lparr>np_array = [[7, 8]], captured_at = 31\<rparr>
   \<and> pcd (outcome_state (round_body nearest_resize (fst (rebuilt [] flip_state))
         points_round (snd (snd (rebuilt [] flip_state)))))
       = Some \<lparr>np_array = \<lparr>itemsize = 4, items = [[[1, 2, 3]]]\<rparr>, captured_at = 20\<rparr>
   \<and> map_option captured_at (pcd (progress_state
         (run nearest_resize [flip_lifetime, points_lifetime] (init_worker 1 2 True True))))
       = Some 20
   \<and> pcd (progress_state
         (run nearest_resize [flip_lifetime, points_lifetime] (init_worker 480 640 True False)))
       = None"
proof -
  let ?init = "init_worker 1 2 True True :: nat worker"
  let ?built = "write_log CreatingStereoNode (write_log CreatingColorNode
               (write_log InitializingPipeline ?init))"
  let ?oak = "\<lparr>color_component = True, stereo_component = True, pc_component = False\<rparr>"
  have fs: "flip_state = get_pcd_mark ?built" by (simp add: flip_state_def)
  have live0: "running (manager ?init)" by (simp add: init_worker_def)
  have l1: "open_raises flip_lifetime = None" "start_raises flip_lifetime = None"
    "rounds flip_lifetime = [] @ flip_round # [points_round]"
    by (simp_all add: flip_lifetime_def)
  have built: "build_pipeline (write_log InitializingPipeline
      (other_threads (build_acts flip_lifetime) ?init)) = (?oak, False, ?built)"
    by (simp add: flip_lifetime_def build_pipeline_def configure_color_def configure_stereo_def
        configure_pc_def init_worker_def)
  have pend: "capture_loop nearest_resize ?oak False [] ?built = Pending ?built"
    by (simp add: init_worker_def)
  have round: "round_body nearest_resize ?oak flip_round ?built = Normal flip_state"
    by (simp add: fs round_body_def flip_round_def handle_color_output_def
        handle_depth_and_pcd_output_def)
  have flip: "get_pcd_was_invoked flip_state" by (simp add: fs get_pcd_mark_def)
  have live: "running (manager flip_state)"
    by (simp add: fs get_pcd_mark_def init_worker_def)
  have p0: "pcd ?init = None" "user_wants_depth ?init" "user_wants_color ?init"
    by (simp_all add: init_worker_def)
  have l2: "open_raises points_lifetime = None" "start_raises points_lifetime = None"
    "build_acts points_lifetime = []" "rounds points_lifetime = points_round # []"
    "running (manager (other_threads [] (write_log ExitingPipelineLoop flip_state)))"
    using live by (simp_all add: points_lifetime_def)
  have rp: "color_out points_round = Inr None"
    "poll_out points_round = [Inr (PointcloudPacket \<lparr>itemsize = 4, items = [[[1, 2, 3]]]\<rparr>, 20)]"
    by (simp_all add: points_round_def)
  have rc: "color_out color_round = Inr (Some (\<lparr>itemsize = 1, items = [[[4, 5, 6]]]\<rparr>, 30))"
    by (simp add: color_round_def)
  have rd: "color_out depth_round = Inr None"
    "poll_out depth_round = [Inr (DisparityDepthPacket [[7, 8]], 31)]"
    by (simp_all add: depth_round_def)
  have sd: "set_depth_map nearest_resize [[7, 8 :: nat]] 31 ?init
      = Normal ((write_log SettingCurrentDepthMap ?init)
                  \<lparr>depth_map := Some \<lparr>np_array = [[7, 8]], captured_at = 31\<rparr>\<rparr>)"
    by (simp add: set_depth_map_def shape2_def init_worker_def)
  have small: "\<not> nbytes \<lparr>itemsize = 4, items = [[[1, 2, 3 :: nat]]]\<rparr> > MAX_GRPC_MESSAGE_BYTE_COUNT"
    by (simp add: nbytes_def count_items_def MAX_GRPC_MESSAGE_BYTE_COUNT_def)
  have after: "map_option captured_at (pcd (progress_state
         (run nearest_resize [flip_lifetime, points_lifetime] ?init))) = Some 20"
    by (simp add: script_defs step_defs init_worker_def write_log_def set_pcd_def nbytes_def
        count_items_def MAX_GRPC_MESSAGE_BYTE_COUNT_def)
  note T = demand_flip_rebuilds_pipeline[OF live0 l1 built pend round flip live]
  note Tp = T[where ls = "[points_lifetime]" and as = "[]" and ?l2.0 = points_lifetime
      and ?r2.0 = points_round and ?rest2.0 = "[]" and c = None and t = 20
      and pts = "\<lparr>itemsize = 4, items = [[[1, 2, 3]]]\<rparr>"]
  note Tc = T[where as = "[]" and ?r2.0 = color_round and t = 30
      and arr = "\<lparr>itemsize = 1, items = [[[4, 5, 6]]]\<rparr>"]
  note Td = T[where as = "[]" and ?r2.0 = depth_round and t = 31 and c = None
      and f = "[[7, 8]]"
      and ?y0.0 = "(write_log SettingCurrentDepthMap ?init)
                  \<lparr>depth_map := Some \<lparr>np_array = [[7, 8]], captured_at = 31\<rparr>\<rparr>"]
  have c1: "run nearest_resize [flip_lifetime, points_lifetime] ?init
     = run nearest_resize [points_lifetime] (write_log ExitingPipelineLoop flip_state)"
    using Tp by blast
  have c2: "pcd flip_state = None" using Tp p0(1) by simp
  have c3: "pc_component (fst (rebuilt [] flip_state))" using Tp p0(2) by simp
  have c4: "pipeline_body nearest_resize points_lifetime (write_log ExitingPipelineLoop flip_state)
       = (case round_body nearest_resize (fst (rebuilt [] flip_state)) points_round
                 (snd (snd (rebuilt [] flip_state))) of
            Raised e y \<Rightarrow> Done (Raised e y)
          | Normal y \<Rightarrow> capture_loop nearest_resize (fst (rebuilt [] flip_state)) True [] y)"
    using Tp l2 by blast
  have c5: "color_image (outcome_state (round_body nearest_resize (fst (rebuilt [] flip_state))
         color_round (snd (snd (rebuilt [] flip_state)))))
       = Some \<lparr>np_array = \<lparr>itemsize = 1, items = [[[4, 5, 6]]]\<rparr>, captured_at = 30\<rparr>"
    using Tc p0(3) rc by blast
  have "depth_map (outcome_state (round_body nearest_resize (fst (rebuilt [] flip_state))
         depth_round (snd (snd (rebuilt [] flip_state)))))
       = depth_map ((write_log SettingCurrentDepthMap ?init)
                  \<lparr>depth_map := Some \<lparr>np_array = [[7, 8]], captured_at = 31\<rparr>\<rparr>)"
    using Td p0(2) rd sd by blast
  then have c6: "depth_map (outcome_state (round_body nearest_resize (fst (rebuilt [] flip_state))
         depth_round (snd (snd (rebuilt [] flip_state)))))
       = Some \<lparr>np_array = [[7, 8]], captured_at = 31\<rparr>" by simp
  have "pcd (outcome_state (round_body nearest_resize (fst (rebuilt [] flip_state))
         points_round (snd (snd (rebuilt [] flip_state)))))
       = Some \<lparr>np_array = (if nbytes \<lparr>itemsize = 4, items = [[[1, 2, 3 :: nat]]]\<rparr>
                                > MAX_GRPC_MESSAGE_BYTE_COUNT
                             then subsample \<lparr>itemsize = 4, items = [[[1, 2, 3]]]\<rparr>
                             else \<lparr>itemsize = 4, items = [[[1, 2, 3]]]\<rparr>),
                captured_at = 20\<rparr>"
    using Tp p0(2) rp by blast
  then have c7: "pcd (outcome_state (round_body nearest_resize (fst (rebuilt [] flip_state))
         points_round (snd (snd (rebuilt [] flip_state)))))
       = Some \<lparr>np_array = \<lparr>itemsize = 4, items = [[[1, 2, 3]]]\<rparr>, captured_at = 20\<rparr>"
    using small by simp
  let ?nodepth = "init_worker 480 640 True False :: nat worker"
  let ?nbuilt = "write_log CreatingColorNode (write_log InitializingPipeline ?nodepth)"
  let ?noak = "\<lparr>color_component = True, stereo_component = False, pc_component = False\<rparr>"
  have nlive0: "running (manager ?nodepth)" by (simp add: init_worker_def)
  have nbuilt: "build_pipeline (write_log InitializingPipeline
      (other_threads (build_acts flip_lifetime) ?nodepth)) = (?noak, False, ?nbuilt)"
    by (simp add: flip_lifetime_def build_pipeline_def configure_color_def configure_stereo_def
        configure_pc_def init_worker_def)
  have npend: "capture_loop nearest_resize ?noak False [] ?nbuilt = Pending ?nbuilt"
    by (simp add: init_worker_def)
  have nround: "round_body nearest_resize ?noak flip_round ?nbuilt = Normal (get_pcd_mark ?nbuilt)"
    by (simp add: round_body_def flip_round_def handle_color_output_def
        handle_depth_and_pcd_output_def init_worker_def)
  have nflip: "get_pcd_was_invoked (get_pcd_mark ?nbuilt)" by (simp add: get_pcd_mark_def)
  have nlive: "running (manager (get_pcd_mark ?nbuilt))"
    by (simp add: get_pcd_mark_def init_worker_def)
  have n0: "\<not> user_wants_depth ?nodepth" "pcd ?nodepth = None" by (simp_all add: init_worker_def)
  from demand_flip_rebuilds_pipeline[OF nlive0 l1 nbuilt npend nround nflip nlive,
      where ls' = "[flip_lifetime, points_lifetime]"] n0(1)
  have "pcd (progress_state
         (run nearest_resize [flip_lifetime, points_lifetime] ?nodepth)) = pcd ?nodepth"
    by blast
  then have c8: "pcd (progress_state
         (run nearest_resize [flip_lifetime, points_lifetime] ?nodepth)) = None"
    using n0(2) by (simp only:)
  show ?thesis using c1 c2 c3 c4 c5 c6 c7 after c8 by blast
qed

end
